theory Spec2Isabelle
  imports Complex_Main "HOL-Library.AList" "HOL-Library.Sublist"
begin

section \<open>Strings\<close>

text \<open>
  Python strings are sequences of code points; the model keeps the code points below 256
  as HOL characters. \<open>str.strip()\<close> without argument removes leading and trailing
  characters for which \<open>str.isspace()\<close> holds: below 256 these are 9..13, 28..32,
  133 and 160.
\<close>

definition is_space :: "char \<Rightarrow> bool" where
  "is_space c = (let n = (of_char c :: nat)
                 in (9 \<le> n \<and> n \<le> 13) \<or> (28 \<le> n \<and> n \<le> 32) \<or> n = 133 \<or> n = 160)"

definition strip :: "string \<Rightarrow> string" where
  "strip s = rev (dropWhile is_space (rev (dropWhile is_space s)))"

definition startswith :: "string \<Rightarrow> string \<Rightarrow> bool" where
  "startswith s p = (take (length p) s = p)"

section \<open>DataManager: the daily code list\<close>

text \<open>
  \<open>DataManager.read_daily_input\<close>, the loop over the lines of the file:
  \<^verbatim>\<open>
  kode_dp_list = []
  seen_codes = set()
  for line in file:
      line = line.strip()
      if not line or line.startswith('#') or line in seen_codes:
          continue
      seen_codes.add(line)
      kode_dp_list.append(line)
  \<close>
  The loop state is the pair \<open>(seen_codes, kode_dp_list)\<close>.
\<close>

fun daily_loop :: "string list \<Rightarrow> string set \<Rightarrow> string list \<Rightarrow> string list" where
  "daily_loop [] seen_codes kode_dp_list = kode_dp_list"
| "daily_loop (raw # rest) seen_codes kode_dp_list =
     (let line = strip raw
      in if line = [] \<or> startswith line ''#'' \<or> line \<in> seen_codes
         then daily_loop rest seen_codes kode_dp_list
         else daily_loop rest (insert line seen_codes) (kode_dp_list @ [line]))"

definition read_daily_input :: "string list \<Rightarrow> string list" where
  "read_daily_input file_lines = daily_loop file_lines {} []"

text \<open>
  What the specification says of the loaded list, written independently of the loop:
  a line is a code when, trimmed, it is neither blank nor a comment, and of equal codes
  only the first is kept.
\<close>

definition is_code_line :: "string \<Rightarrow> bool" where
  "is_code_line line = (line \<noteq> [] \<and> \<not> startswith line ''#'')"

fun keep_first :: "string list \<Rightarrow> string list" where
  "keep_first [] = []"
| "keep_first (x # xs) = x # keep_first (filter (\<lambda>y. y \<noteq> x) xs)"

section \<open>DataManager: the lookup table\<close>

text \<open>
  A row is the dictionary \<open>csv.DictReader\<close> yields: a column name is absent (looking it
  up raises \<open>KeyError\<close>), or maps to \<open>None\<close> (a short row) or to the cell's text.
  \<open>master_data\<close> is a Python dictionary: an association list with distinct keys in
  insertion order, where storing under an existing key replaces its value in place.
\<close>

type_synonym row = "string \<rightharpoonup> string option"

record entry =
  City :: string
  RK :: string
  row_number :: nat

type_synonym master_data = "(string \<times> entry) list"

text \<open>
  \<^verbatim>\<open>row['City'].strip() if row['City'] else ''\<close>; the result \<open>None\<close> stands for the
  \<open>KeyError\<close>, which the bare \<open>except\<close> of the loop turns into skipping the row.
\<close>

definition cell :: "row \<Rightarrow> string \<Rightarrow> string option" where
  "cell r name =
     (case r name of
        None \<Rightarrow> None
      | Some None \<Rightarrow> Some []
      | Some (Some s) \<Rightarrow> Some (if s = [] then [] else strip s))"

fun load_rows :: "row list \<Rightarrow> nat \<Rightarrow> master_data \<Rightarrow> master_data" where
  "load_rows [] row_num md = md"
| "load_rows (r # rest) row_num md =
     (case cell r ''Kode_DP'' of
        None \<Rightarrow> load_rows rest (row_num + 1) md
      | Some kode_dp \<Rightarrow>
     (case cell r ''City'' of
        None \<Rightarrow> load_rows rest (row_num + 1) md
      | Some city \<Rightarrow>
     (case cell r ''RK'' of
        None \<Rightarrow> load_rows rest (row_num + 1) md
      | Some rk \<Rightarrow>
          if kode_dp = [] \<or> city = [] \<or> rk = []
          then load_rows rest (row_num + 1) md
          else load_rows rest (row_num + 1)
                 (AList.update kode_dp \<lparr>City = city, RK = rk, row_number = row_num\<rparr> md))))"

definition required_fields :: "string list" where
  "required_fields = [''Kode_DP'', ''City'', ''RK'']"

text \<open>
  \<open>DataManager.load_master_data\<close> from the header and the rows the reader yields; every
  exception is caught at the end and becomes the result \<open>None\<close>.
\<close>

definition load_master_data :: "string list \<Rightarrow> row list \<Rightarrow> master_data option" where
  "load_master_data fieldnames rows =
     (if fieldnames = [] then None
      else if filter (\<lambda>f. f \<notin> set (map strip fieldnames)) required_fields \<noteq> [] then None
      else let md = load_rows rows 2 []
           in if md = [] then None else Some md)"

text \<open>A row is complete when its three required cells exist and are not blank once trimmed.\<close>

definition complete_row :: "row \<Rightarrow> bool" where
  "complete_row r =
     (case (cell r ''Kode_DP'', cell r ''City'', cell r ''RK'') of
        (Some k, Some c, Some rk) \<Rightarrow> k \<noteq> [] \<and> c \<noteq> [] \<and> rk \<noteq> []
      | _ \<Rightarrow> False)"

definition row_code :: "row \<Rightarrow> string" where
  "row_code r = the (cell r ''Kode_DP'')"

definition row_entry :: "row \<Rightarrow> nat \<Rightarrow> entry" where
  "row_entry r n = \<lparr>City = the (cell r ''City''), RK = the (cell r ''RK''), row_number = n\<rparr>"

text \<open>
  The entry the specification gives a code: that of the last complete row carrying it,
  with the row's number (rows are numbered from \<open>n\<close>).
\<close>

fun last_complete_row :: "string \<Rightarrow> nat \<Rightarrow> row list \<Rightarrow> entry option" where
  "last_complete_row k n [] = None"
| "last_complete_row k n (r # rest) =
     (case last_complete_row k (n + 1) rest of
        Some e \<Rightarrow> Some e
      | None \<Rightarrow> if complete_row r \<and> row_code r = k then Some (row_entry r n) else None)"

section \<open>AutomationBot: the run controller\<close>

text \<open>
  Python's exceptions, as far as the handlers of \<open>run_automation\<close> tell them apart:
  \<open>Error\<close> is any exception of class \<open>Exception\<close>; \<open>KeyboardInterrupt\<close> and
  \<open>SystemExit\<close> derive from \<open>BaseException\<close> only, so \<open>except Exception\<close> lets them
  pass. A call of the controller returns a value or raises.
\<close>

datatype interrupt = KeyboardInterrupt | SystemExit

datatype exn = Error | Interrupt interrupt

datatype 'a outcome = Returns 'a | Raises exn

text \<open>
  \<open>signal_handler\<close>, installed by \<open>main\<close> for SIGINT and SIGTERM, logs a line and
  calls \<open>sys.exit(0)\<close>: it raises \<open>SystemExit\<close> at the point the main thread has
  reached.
\<close>

definition signal_handler :: interrupt where
  "signal_handler = SystemExit"

text \<open>
  The lines the controller logs for an item, with the code they name. \<open>Attempt\<close> is not
  a logger line: it records a call of \<open>process_ticket_creation\<close> for a code, with the
  attempt's index and what the call did.
\<close>

record report =
  r_duration :: int
  r_total :: int
  r_successful :: int
  r_failed :: int
  r_skipped :: int
  r_success_rate :: "rat option"
  r_items_per_minute :: "rat option"

datatype event =
    SkipProcessed string
  | SkipNotInMaster string
  | Processing string
  | Attempt string nat "bool outcome"
  | AttemptFailedRetrying nat
  | AttemptError nat
  | Success string
  | Failed string
  | InterruptedByUser
  | ErrorProcessing string
  | FinalReport report
  | ReportError

text \<open>
  The fields of \<open>AutomationBot\<close> the controller reads and writes: \<open>processed_dps\<close>,
  the \<open>stats\<close> dictionary (times in microseconds), whether the driver manager still
  holds a driver, and the log written so far.
\<close>

record bot =
  processed_dps :: "string set"
  successful :: int
  failed :: int
  skipped :: int
  start_time :: "int option"
  end_time :: "int option"
  driver_open :: bool
  logged :: "event list"

definition emit :: "event \<Rightarrow> bot \<Rightarrow> bot" where
  "emit e b = b\<lparr>logged := logged b @ [e]\<rparr>"

record config =
  MAX_RETRIES :: nat
  RETRY_DELAY :: nat

text \<open>
  What the controller calls, over a world \<open>'w\<close> (the browser and the clock):
  \<open>process_ticket_creation\<close>, \<open>handle_page_refresh_and_navigation\<close>, \<open>login\<close>,
  \<open>navigate_to_dp_menu\<close>, \<open>time.sleep\<close> (which nothing but a signal handler makes
  raise) and \<open>datetime.now\<close>.
\<close>

record 'w env =
  engine :: "string \<Rightarrow> string \<Rightarrow> string \<Rightarrow> 'w \<Rightarrow> bool outcome \<times> 'w"
  recover :: "'w \<Rightarrow> bool outcome \<times> 'w"
  login :: "'w \<Rightarrow> bool outcome \<times> 'w"
  navigate :: "'w \<Rightarrow> bool outcome \<times> 'w"
  sleep :: "nat \<Rightarrow> 'w \<Rightarrow> interrupt option \<times> 'w"
  now :: "'w \<Rightarrow> int"

text \<open>What leaves a block of statements: its value, or an interrupt no handler caught.\<close>

datatype 'a flow = Normal 'a | Abort interrupt

text \<open>
  The handler of the attempt's \<open>try\<close>:
  \<^verbatim>\<open>
  except Exception as e:
      logger.error(f"Attempt {attempt + 1} error: ...")
      if attempt < config.MAX_RETRIES - 1:
          time.sleep(config.RETRY_DELAY)
  \<close>
\<close>

definition attempt_except :: "'w env \<Rightarrow> config \<Rightarrow> nat \<Rightarrow> bot \<times> 'w \<Rightarrow> unit flow \<times> bot \<times> 'w" where
  "attempt_except ev cfg attempt s =
     (case s of (b, w) \<Rightarrow>
        let b1 = emit (AttemptError (attempt + 1)) b
        in if int attempt < int (MAX_RETRIES cfg) - 1
           then (case sleep ev (RETRY_DELAY cfg) w of
                   (None, w1) \<Rightarrow> (Normal (), b1, w1)
                 | (Some i, w1) \<Rightarrow> (Abort i, b1, w1))
           else (Normal (), b1, w))"

text \<open>
  One pass through the body of \<open>for attempt in range(config.MAX_RETRIES)\<close>. The
  result \<open>Normal None\<close> goes on to the next attempt, \<open>Normal (Some v)\<close> is a
  \<open>break\<close> with \<open>success = v\<close>, \<open>Abort\<close> an interrupt that leaves the loop.
  \<^verbatim>\<open>
  try:
      if self.process_ticket_creation(city, rk, kode_dp_value):
          success = True
          break
      else:
          if attempt < config.MAX_RETRIES - 1:
              logger.warning(f"Attempt {attempt + 1} failed, retrying...")
              if not self.handle_page_refresh_and_navigation():
                  break
              time.sleep(config.RETRY_DELAY)
  except Exception as e: ...
  \<close>
\<close>

definition attempt_body ::
  "'w env \<Rightarrow> config \<Rightarrow> string \<Rightarrow> string \<Rightarrow> string \<Rightarrow> nat \<Rightarrow> bot \<times> 'w
     \<Rightarrow> bool option flow \<times> bot \<times> 'w"
where
  "attempt_body ev cfg city rk kode attempt s =
     (case s of (b, w) \<Rightarrow>
      (case engine ev city rk kode w of
         (Returns True, w1) \<Rightarrow>
           (Normal (Some True), emit (Attempt kode attempt (Returns True)) b, w1)
       | (Returns False, w1) \<Rightarrow>
           (let b1 = emit (Attempt kode attempt (Returns False)) b
            in if int attempt < int (MAX_RETRIES cfg) - 1
               then (let b2 = emit (AttemptFailedRetrying (attempt + 1)) b1
                     in case recover ev w1 of
                          (Returns False, w2) \<Rightarrow> (Normal (Some False), b2, w2)
                        | (Returns True, w2) \<Rightarrow>
                            (case sleep ev (RETRY_DELAY cfg) w2 of
                               (None, w3) \<Rightarrow> (Normal None, b2, w3)
                             | (Some i, w3) \<Rightarrow> (Abort i, b2, w3))
                        | (Raises (Interrupt i), w2) \<Rightarrow> (Abort i, b2, w2)
                        | (Raises Error, w2) \<Rightarrow>
                            (case attempt_except ev cfg attempt (b2, w2) of
                               (Normal u, s3) \<Rightarrow> (Normal None, s3)
                             | (Abort i, s3) \<Rightarrow> (Abort i, s3)))
               else (Normal None, b1, w1))
       | (Raises (Interrupt i), w1) \<Rightarrow>
           (Abort i, emit (Attempt kode attempt (Raises (Interrupt i))) b, w1)
       | (Raises Error, w1) \<Rightarrow>
           (case attempt_except ev cfg attempt
                   (emit (Attempt kode attempt (Raises Error)) b, w1) of
              (Normal u, s3) \<Rightarrow> (Normal None, s3)
            | (Abort i, s3) \<Rightarrow> (Abort i, s3))))"

text \<open>
  The loop over the attempt indices still to run; its value is \<open>success\<close>, which
  stays \<open>False\<close> when the indices run out.
\<close>

fun attempt_loop ::
  "'w env \<Rightarrow> config \<Rightarrow> string \<Rightarrow> string \<Rightarrow> string \<Rightarrow> nat list \<Rightarrow> bot \<times> 'w
     \<Rightarrow> bool flow \<times> bot \<times> 'w"
where
  "attempt_loop ev cfg city rk kode [] s = (Normal False, s)"
| "attempt_loop ev cfg city rk kode (attempt # rest) s =
     (case attempt_body ev cfg city rk kode attempt s of
        (Normal None, s1) \<Rightarrow> attempt_loop ev cfg city rk kode rest s1
      | (Normal (Some v), s1) \<Rightarrow> (Normal v, s1)
      | (Abort i, s1) \<Rightarrow> (Abort i, s1))"

text \<open>
  How the body of the item loop ends: it goes on to the next code, it leaves the loop
  (\<open>break\<close>), or \<open>SystemExit\<close> leaves \<open>run_automation\<close> through its \<open>finally\<close>.
\<close>

datatype step = Continue | Break | Exit

text \<open>
  The handlers of the item's \<open>try\<close>: \<open>except KeyboardInterrupt\<close> logs and breaks;
  \<open>SystemExit\<close> has no handler. (\<open>except Exception\<close> counts the item as failed; none
  of the statements outside the attempt's own \<open>try\<close> raises an \<open>Exception\<close> here.)
\<close>

definition item_except :: "interrupt \<Rightarrow> bot \<times> 'w \<Rightarrow> step \<times> bot \<times> 'w" where
  "item_except i s =
     (case s of (b, w) \<Rightarrow>
        (case i of
           KeyboardInterrupt \<Rightarrow> (Break, emit InterruptedByUser b, w)
         | SystemExit \<Rightarrow> (Exit, b, w)))"

text \<open>The body of \<open>for index, kode_dp_value in enumerate(kode_dp_list, 1)\<close>.\<close>

definition process_item ::
  "'w env \<Rightarrow> config \<Rightarrow> master_data \<Rightarrow> string \<Rightarrow> bot \<times> 'w \<Rightarrow> step \<times> bot \<times> 'w"
where
  "process_item ev cfg md kode s =
     (case s of (b, w) \<Rightarrow>
      if kode \<in> processed_dps b
      then (Continue, emit (SkipProcessed kode) (b\<lparr>skipped := skipped b + 1\<rparr>), w)
      else (case map_of md kode of
              None \<Rightarrow> (Continue, emit (SkipNotInMaster kode) (b\<lparr>skipped := skipped b + 1\<rparr>), w)
            | Some data \<Rightarrow>
                (case attempt_loop ev cfg (City data) (RK data) kode [0..<MAX_RETRIES cfg]
                        (emit (Processing kode) b, w) of
                   (Abort i, s1) \<Rightarrow> item_except i s1
                 | (Normal success, b1, w1) \<Rightarrow>
                     (let b2 = (if success
                                then emit (Success kode)
                                       (b1\<lparr>processed_dps := insert kode (processed_dps b1),
                                           successful := successful b1 + 1\<rparr>)
                                else emit (Failed kode) (b1\<lparr>failed := failed b1 + 1\<rparr>))
                      in case sleep ev 1 w1 of
                           (None, w2) \<Rightarrow> (Continue, b2, w2)
                         | (Some i, w2) \<Rightarrow> item_except i (b2, w2)))))"

fun item_loop ::
  "'w env \<Rightarrow> config \<Rightarrow> master_data \<Rightarrow> string list \<Rightarrow> bot \<times> 'w \<Rightarrow> step \<times> bot \<times> 'w"
where
  "item_loop ev cfg md [] s = (Continue, s)"
| "item_loop ev cfg md (kode # rest) s =
     (case process_item ev cfg md kode s of
        (Continue, s1) \<Rightarrow> item_loop ev cfg md rest s1
      | (Break, s1) \<Rightarrow> (Break, s1)
      | (Exit, s1) \<Rightarrow> (Exit, s1))"

text \<open>
  The states of the bot between items, in the order the loop passes through them: the one
  it starts from and the one after each item it processed or was interrupted in.
\<close>

fun loop_states ::
  "'w env \<Rightarrow> config \<Rightarrow> master_data \<Rightarrow> string list \<Rightarrow> bot \<times> 'w \<Rightarrow> bot list"
where
  "loop_states ev cfg md [] s = [fst s]"
| "loop_states ev cfg md (kode # rest) s =
     fst s # (case process_item ev cfg md kode s of
                (Continue, s1) \<Rightarrow> loop_states ev cfg md rest s1
              | (Break, s1) \<Rightarrow> [fst s1]
              | (Exit, s1) \<Rightarrow> [fst s1])"

text \<open>
  \<open>generate_final_report\<close>: the division is Python's true division, here exact. With
  no start time the subtraction raises and the handler logs the error instead.
  \<^verbatim>\<open>
  new_items = total_items - self.stats['skipped']
  if new_items > 0:
      success_rate = (self.stats['successful'] / new_items * 100)
  \<close>
\<close>

definition success_rate :: "bot \<Rightarrow> int \<Rightarrow> rat option" where
  "success_rate b total_items =
     (let new_items = total_items - skipped b
      in if new_items > 0 then Some (of_int (successful b) / of_int new_items * 100) else None)"

definition items_per_minute :: "bot \<Rightarrow> int \<Rightarrow> rat option" where
  "items_per_minute b duration =
     (if duration > 0 then Some (of_int (successful b) / (of_int duration / 1000000 / 60)) else None)"

definition generate_final_report :: "bot \<Rightarrow> int \<Rightarrow> int \<Rightarrow> bot" where
  "generate_final_report b total_items t =
     (let b1 = b\<lparr>end_time := Some t\<rparr>
      in case start_time b1 of
           None \<Rightarrow> emit ReportError b1
         | Some t0 \<Rightarrow>
             emit (FinalReport
                    \<lparr>r_duration = t - t0, r_total = total_items, r_successful = successful b1,
                     r_failed = failed b1, r_skipped = skipped b1,
                     r_success_rate = success_rate b1 total_items,
                     r_items_per_minute = items_per_minute b1 (t - t0)\<rparr>) b1)"

text \<open>
  \<open>AutomationBot.cleanup\<close>: the end time is set if the run started and has none, and
  the driver manager quits the driver and forgets it.
\<close>

definition cleanup :: "bot \<Rightarrow> int \<Rightarrow> bot" where
  "cleanup b t =
     (let b1 = (if start_time b \<noteq> None \<and> end_time b = None then b\<lparr>end_time := Some t\<rparr> else b)
      in b1\<lparr>driver_open := False\<rparr>)"

text \<open>
  The \<open>try\<close> block of \<open>run_automation\<close>, from the loaded table and code list on, with
  its \<open>except Exception\<close> (which returns \<open>False\<close>); then \<open>run_automation\<close> itself, which
  adds the \<open>finally: self.cleanup()\<close>.
\<close>

definition run_body ::
  "'w env \<Rightarrow> config \<Rightarrow> master_data option \<Rightarrow> string list \<Rightarrow> bot \<times> 'w \<Rightarrow> bool flow \<times> bot \<times> 'w"
where
  "run_body ev cfg master kode_dp_list s =
     (case s of (b, w) \<Rightarrow>
      (case master of
         None \<Rightarrow> (Normal False, b, w)
       | Some md \<Rightarrow>
           if md = [] then (Normal False, b, w)
           else if kode_dp_list = [] then (Normal False, b, w)
           else (case login ev w of
                   (Returns False, w1) \<Rightarrow> (Normal False, b, w1)
                 | (Raises Error, w1) \<Rightarrow> (Normal False, b, w1)
                 | (Raises (Interrupt i), w1) \<Rightarrow> (Abort i, b, w1)
                 | (Returns True, w1) \<Rightarrow>
                     (case navigate ev w1 of
                        (Returns False, w2) \<Rightarrow> (Normal False, b, w2)
                      | (Raises Error, w2) \<Rightarrow> (Normal False, b, w2)
                      | (Raises (Interrupt i), w2) \<Rightarrow> (Abort i, b, w2)
                      | (Returns True, w2) \<Rightarrow>
                          (case item_loop ev cfg md kode_dp_list (b\<lparr>processed_dps := {}\<rparr>, w2) of
                             (Exit, b3, w3) \<Rightarrow> (Abort SystemExit, b3, w3)
                           | (Continue, b3, w3) \<Rightarrow>
                               (Normal True,
                                generate_final_report b3 (int (length kode_dp_list)) (now ev w3), w3)
                           | (Break, b3, w3) \<Rightarrow>
                               (Normal True,
                                generate_final_report b3 (int (length kode_dp_list)) (now ev w3), w3))))))"

definition run_automation ::
  "'w env \<Rightarrow> config \<Rightarrow> master_data option \<Rightarrow> string list \<Rightarrow> bot \<times> 'w \<Rightarrow> bool flow \<times> bot \<times> 'w"
where
  "run_automation ev cfg master kode_dp_list s =
     (case run_body ev cfg master kode_dp_list s of
        (r, b1, w1) \<Rightarrow> (r, cleanup b1 (now ev w1), w1))"

text \<open>
  The bot as \<open>__init__\<close> and \<open>initialize\<close> leave it at time \<open>t\<close>: nothing processed, all
  counters zero, the driver created.
\<close>

definition initial_bot :: "int \<Rightarrow> bot" where
  "initial_bot t =
     \<lparr>processed_dps = {}, successful = 0, failed = 0, skipped = 0,
      start_time = Some t, end_time = None, driver_open = True, logged = []\<rparr>"

text \<open>The calls of the engine a log records for a code, and the counted outcome lines.\<close>

fun attempt_of :: "string \<Rightarrow> event \<Rightarrow> bool outcome option" where
  "attempt_of kode (Attempt k n r) = (if k = kode then Some r else None)"
| "attempt_of kode e = None"

definition attempts_of :: "string \<Rightarrow> event list \<Rightarrow> bool outcome list" where
  "attempts_of kode evs = List.map_filter (attempt_of kode) evs"

text \<open>The lines an attempt loop writes for a code, and the lines that count an item.\<close>

fun attempt_line :: "string \<Rightarrow> event \<Rightarrow> bool" where
  "attempt_line kode (Attempt k n r) = (k = kode)"
| "attempt_line kode (AttemptFailedRetrying n) = True"
| "attempt_line kode (AttemptError n) = True"
| "attempt_line kode e = False"

definition new_events :: "bot \<Rightarrow> bot \<Rightarrow> event list" where
  "new_events b b' = drop (length (logged b)) (logged b')"

text \<open>What a state owes to an earlier one when only lines were logged in between.\<close>

definition wrote :: "bot \<Rightarrow> event list \<Rightarrow> bot \<Rightarrow> bool" where
  "wrote b new b' = (b' = b\<lparr>logged := logged b @ new\<rparr>)"

text \<open>An environment in which no call is interrupted.\<close>

definition uninterrupted :: "'w env \<Rightarrow> bool" where
  "uninterrupted ev =
     ((\<forall>c r k w i. fst (engine ev c r k w) \<noteq> Raises (Interrupt i))
      \<and> (\<forall>w i. fst (recover ev w) \<noteq> Raises (Interrupt i))
      \<and> (\<forall>n w. fst (sleep ev n w) = None))"

text \<open>
  The codes the lines of a log count: under \<open>successful\<close>, under \<open>failed\<close> and under
  \<open>skipped\<close>, each in the order of the log.
\<close>

fun success_of :: "event \<Rightarrow> string option" where
  "success_of (Success k) = Some k"
| "success_of e = None"

fun failure_of :: "event \<Rightarrow> string option" where
  "failure_of (Failed k) = Some k"
| "failure_of (ErrorProcessing k) = Some k"
| "failure_of e = None"

fun skip_of :: "event \<Rightarrow> string option" where
  "skip_of (SkipProcessed k) = Some k"
| "skip_of (SkipNotInMaster k) = Some k"
| "skip_of e = None"

definition counted :: "event list \<Rightarrow> string list" where
  "counted evs =
     List.map_filter success_of evs @ List.map_filter failure_of evs @ List.map_filter skip_of evs"

fun is_skip_processed :: "event \<Rightarrow> bool" where
  "is_skip_processed (SkipProcessed k) = True"
| "is_skip_processed e = False"

text \<open>
  The invariants of the specification, for a bot between two items: each counter is the
  number of lines counted under it, no code is counted twice (under one counter or under
  two), and the processed codes are keys of the lookup table and codes of the daily list.
\<close>

definition tallied :: "bot \<Rightarrow> bool" where
  "tallied b =
     (successful b = int (length (List.map_filter success_of (logged b)))
      \<and> failed b = int (length (List.map_filter failure_of (logged b)))
      \<and> skipped b = int (length (List.map_filter skip_of (logged b))))"

definition controller_inv :: "master_data \<Rightarrow> string list \<Rightarrow> bot \<Rightarrow> bool" where
  "controller_inv md kode_dp_list b =
     (tallied b \<and> distinct (counted (logged b))
      \<and> processed_dps b \<subseteq> fst ` set md \<inter> set kode_dp_list)"

text \<open>The same once the codes \<open>seen\<close> have been through the loop, as the loop keeps it.\<close>

definition loop_inv :: "master_data \<Rightarrow> string list \<Rightarrow> bot \<Rightarrow> bool" where
  "loop_inv md seen b =
     (tallied b \<and> distinct (counted (logged b)) \<and> set (counted (logged b)) \<subseteq> set seen
      \<and> processed_dps b \<subseteq> fst ` set md \<inter> set seen
      \<and> \<not> list_ex is_skip_processed (logged b))"

text \<open>
  An environment for examples, over a world that counts the engine's calls: what the
  engine does depends on the code alone, recovery, login and navigation succeed, no sleep
  is interrupted, and the clock stands at one minute.
\<close>

definition example_env :: "(string \<Rightarrow> bool outcome) \<Rightarrow> nat env" where
  "example_env f =
     \<lparr>engine = (\<lambda>city rk kode w. (f kode, Suc w)),
      recover = (\<lambda>w. (Returns True, w)),
      login = (\<lambda>w. (Returns True, w)),
      navigate = (\<lambda>w. (Returns True, w)),
      sleep = (\<lambda>n w. (None, w)),
      now = (\<lambda>w. 60000000)\<rparr>"

definition example_config :: config where
  "example_config = \<lparr>MAX_RETRIES = 3, RETRY_DELAY = 2\<rparr>"

definition example_master :: master_data where
  "example_master =
     [(''DP001'', \<lparr>City = ''X'', RK = ''Y'', row_number = 2\<rparr>),
      (''DP002'', \<lparr>City = ''Z'', RK = ''W'', row_number = 3\<rparr>)]"

text \<open>The lines that count no item, and the line of the final report.\<close>

fun uncounted :: "event \<Rightarrow> bool" where
  "uncounted (Success k) = False"
| "uncounted (Failed k) = False"
| "uncounted (ErrorProcessing k) = False"
| "uncounted (SkipProcessed k) = False"
| "uncounted (SkipNotInMaster k) = False"
| "uncounted e = True"

fun is_report :: "event \<Rightarrow> bool" where
  "is_report (FinalReport r) = True"
| "is_report e = False"

text \<open>What an item leaves behind, whichever way its processing ends.\<close>

definition item_effect :: "string \<Rightarrow> bot \<Rightarrow> bot \<Rightarrow> bool" where
  "item_effect kode b b' =
     (\<exists>pre post. list_all uncounted pre \<and> list_all uncounted post
        \<and> (b' = b\<lparr>logged := logged b @ pre @ post\<rparr>
           \<or> b' = b\<lparr>processed_dps := insert kode (processed_dps b),
                     successful := successful b + 1,
                     logged := logged b @ pre @ Success kode # post\<rparr>
           \<or> b' = b\<lparr>failed := failed b + 1, logged := logged b @ pre @ Failed kode # post\<rparr>))"

text \<open>
  The state in which attempt \<open>i\<close> of an item starts when no earlier attempt has left the
  loop: the state the body of attempt \<open>i - 1\<close> has left. \<open>engine_at\<close> is what
  \<open>process_ticket_creation\<close> does when it is called there.
\<close>

fun attempt_start ::
  "'w env \<Rightarrow> config \<Rightarrow> string \<Rightarrow> string \<Rightarrow> string \<Rightarrow> nat \<Rightarrow> bot \<times> 'w \<Rightarrow> bot \<times> 'w"
where
  "attempt_start ev cfg city rk kode 0 s = s"
| "attempt_start ev cfg city rk kode (Suc i) s =
     snd (attempt_body ev cfg city rk kode i (attempt_start ev cfg city rk kode i s))"

definition engine_at ::
  "'w env \<Rightarrow> config \<Rightarrow> string \<Rightarrow> string \<Rightarrow> string \<Rightarrow> nat \<Rightarrow> bot \<times> 'w \<Rightarrow> bool outcome"
where
  "engine_at ev cfg city rk kode i s =
     fst (engine ev city rk kode (snd (attempt_start ev cfg city rk kode i s)))"

text \<open>
  An environment in which \<open>handle_page_refresh_and_navigation\<close> never returns false,
  so that no failed attempt ends the loop early.
\<close>

definition recovering :: "'w env \<Rightarrow> bool" where
  "recovering ev = (\<forall>w. fst (recover ev w) \<noteq> Returns False)"

text \<open>
  An environment for examples in which the world counts the calls of the engine, and
  what the engine does depends on how many there were before.
\<close>

definition scripted_env :: "(nat \<Rightarrow> bool outcome) \<Rightarrow> nat env" where
  "scripted_env f =
     \<lparr>engine = (\<lambda>city rk kode w. (f w, Suc w)),
      recover = (\<lambda>w. (Returns True, w)),
      login = (\<lambda>w. (Returns True, w)),
      navigate = (\<lambda>w. (Returns True, w)),
      sleep = (\<lambda>n w. (None, w)),
      now = (\<lambda>w. 60000000)\<rparr>"

section \<open>The browser\<close>

text \<open>
  What the program sees of the browser. An element carries what the program asks of it:
  its text, and whether it is displayed and enabled. A page answers a lookup of a
  selector, by the strategy given, with the first element that matches, if any.

  The browser changes on its own, so what it shows is a function of the moment: every
  wait, lookup or action of the program takes one tick, and finds the page
  \<open>dom_at\<close> shows at that tick, or the fault \<open>fault_at\<close> holds for an action at that
  tick. A wait is bounded by its timeout: the page at its tick is what it has found when
  it ends. \<open>actions\<close> records the actions that took effect, in order.
\<close>

datatype strategy = By_CSS_SELECTOR | By_XPATH

record element =
  el_id :: string
  el_text :: string
  el_displayed :: bool
  el_enabled :: bool

type_synonym page = "strategy \<times> string \<Rightarrow> element option"

datatype fault = StaleElementReference | ElementClickIntercepted | OtherException

datatype keys = CONTROL_A | DELETE | ARROW_DOWN | ENTER | ESCAPE | Chars string

datatype action =
    Scroll element
  | Click element
  | ScriptClick element
  | Clear element
  | SendKeys element keys
  | Refresh

record browser =
  tick :: nat
  dom_at :: "nat \<Rightarrow> page"
  fault_at :: "nat \<Rightarrow> fault option"
  actions :: "action list"

definition look :: "browser \<Rightarrow> page \<times> browser" where
  "look br = (dom_at br (tick br), br\<lparr>tick := tick br + 1\<rparr>)"

definition perform :: "action \<Rightarrow> browser \<Rightarrow> fault option \<times> browser" where
  "perform a br =
     (case fault_at br (tick br) of
        None \<Rightarrow> (None, br\<lparr>tick := tick br + 1, actions := actions br @ [a]\<rparr>)
      | Some f \<Rightarrow> (Some f, br\<lparr>tick := tick br + 1\<rparr>))"

text \<open>\<open>element.text\<close>, which raises on an element gone stale.\<close>

definition read_text :: "element \<Rightarrow> browser \<Rightarrow> string option \<times> browser" where
  "read_text e br =
     (case fault_at br (tick br) of
        None \<Rightarrow> (Some (el_text e), br\<lparr>tick := tick br + 1\<rparr>)
      | Some f \<Rightarrow> (None, br\<lparr>tick := tick br + 1\<rparr>))"

text \<open>
  \<open>wait_for_page_load\<close> waits for the overlay to go and the document to be complete;
  the engine never uses what it returns.
\<close>

definition wait_for_page_load :: "browser \<Rightarrow> browser" where
  "wait_for_page_load br = br\<lparr>tick := tick br + 1\<rparr>"

section \<open>ElementHelper: locating elements\<close>

text \<open>
  \<^verbatim>\<open>
  if selector.startswith('//') or selector.startswith('.//'):
      by = By.XPATH
  else:
      by = By.CSS_SELECTOR
  \<close>
\<close>

definition by_of :: "string \<Rightarrow> strategy" where
  "by_of selector =
     (if startswith selector ''//'' \<or> startswith selector ''.//'' then By_XPATH
      else By_CSS_SELECTOR)"

text \<open>
  The two conditions a \<open>WebDriverWait\<close> waits for. \<open>None\<close> is the wait's
  \<open>TimeoutException\<close>, or any other exception: the bare \<open>except\<close> of the callers
  treats them alike.
\<close>

definition presence_of_element_located :: "page \<Rightarrow> strategy \<times> string \<Rightarrow> element option" where
  "presence_of_element_located pg loc = pg loc"

definition element_to_be_clickable :: "page \<Rightarrow> strategy \<times> string \<Rightarrow> element option" where
  "element_to_be_clickable pg loc =
     (case pg loc of
        None \<Rightarrow> None
      | Some e \<Rightarrow> if el_displayed e \<and> el_enabled e then Some e else None)"

text \<open>
  \<open>find_element_with_fallback\<close>: the first candidate that is present.
\<close>

fun find_element_with_fallback :: "string list \<Rightarrow> browser \<Rightarrow> element option \<times> browser" where
  "find_element_with_fallback [] br = (None, br)"
| "find_element_with_fallback (selector # rest) br =
     (case look br of (pg, br1) \<Rightarrow>
        (case presence_of_element_located pg (by_of selector, selector) of
           Some e \<Rightarrow> (Some e, br1)
         | None \<Rightarrow> find_element_with_fallback rest br1))"

text \<open>
  \<open>wait_for_element\<close>:
  \<^verbatim>\<open>
  for selector in selectors:
      try:
          ...
          if clickable:
              element = WebDriverWait(self.driver, timeout).until(
                  EC.element_to_be_clickable((by, selector)))
          else:
              element = WebDriverWait(self.driver, timeout).until(
                  EC.presence_of_element_located((by, selector)))
          if element.is_displayed() and element.is_enabled():
              return element
      except:
          continue
  return None
  \<close>
\<close>

fun wait_for_element :: "string list \<Rightarrow> bool \<Rightarrow> browser \<Rightarrow> element option \<times> browser" where
  "wait_for_element [] clickable br = (None, br)"
| "wait_for_element (selector # rest) clickable br =
     (case look br of (pg, br1) \<Rightarrow>
        (case (if clickable then element_to_be_clickable pg (by_of selector, selector)
               else presence_of_element_located pg (by_of selector, selector)) of
           None \<Rightarrow> wait_for_element rest clickable br1
         | Some e \<Rightarrow>
             if el_displayed e \<and> el_enabled e then (Some e, br1)
             else wait_for_element rest clickable br1))"

text \<open>What the specification asks of a candidate's element, by the \<open>clickable\<close> flag.\<close>

definition satisfies :: "bool \<Rightarrow> element option \<Rightarrow> bool" where
  "satisfies clickable found =
     (case found of
        None \<Rightarrow> False
      | Some e \<Rightarrow> if clickable then el_displayed e \<and> el_enabled e else True)"

text \<open>What the code asks of it, whatever the flag.\<close>

definition usable :: "element option \<Rightarrow> bool" where
  "usable found = (case found of None \<Rightarrow> False | Some e \<Rightarrow> el_displayed e \<and> el_enabled e)"

text \<open>What the wait for the \<open>i\<close>-th candidate finds, started at the browser's tick.\<close>

definition candidate :: "browser \<Rightarrow> string list \<Rightarrow> nat \<Rightarrow> element option" where
  "candidate br selectors i = dom_at br (tick br + i) (by_of (selectors ! i), selectors ! i)"

section \<open>ElementHelper: clicking\<close>

text \<open>
  \<open>safe_click\<close> is given selectors, which it resolves (and resolves again when the
  element has gone stale), or an element.
\<close>

datatype target = Selectors "string list" | Handle element

text \<open>
  The \<open>try\<close> block of one attempt:
  \<^verbatim>\<open>
  self.driver.execute_script("arguments[0].scrollIntoView(...)", element)
  if use_js or attempt > 0:
      self.driver.execute_script("arguments[0].click();", element)
  else:
      try:
          element.click()
      except ElementClickInterceptedException:
          self.driver.execute_script("arguments[0].click();", element)
  return True
  \<close>
\<close>

definition click_once :: "element \<Rightarrow> bool \<Rightarrow> nat \<Rightarrow> browser \<Rightarrow> fault option \<times> browser" where
  "click_once e use_js attempt br =
     (case perform (Scroll e) br of
        (Some f, br1) \<Rightarrow> (Some f, br1)
      | (None, br1) \<Rightarrow>
          if use_js \<or> attempt > 0 then perform (ScriptClick e) br1
          else (case perform (Click e) br1 of
                  (Some ElementClickIntercepted, br2) \<Rightarrow> perform (ScriptClick e) br2
                | (Some StaleElementReference, br2) \<Rightarrow> (Some StaleElementReference, br2)
                | (Some OtherException, br2) \<Rightarrow> (Some OtherException, br2)
                | (None, br2) \<Rightarrow> (None, br2)))"

text \<open>
  Its handlers; the result is the element to go on with, or \<open>None\<close> for
  \<open>return False\<close>:
  \<^verbatim>\<open>
  except StaleElementReferenceException:
      if isinstance(element_or_selectors, (list, str)):
          element = self.wait_for_element(element_or_selectors, clickable=True)
          if not element:
              return False
      else:
          return False
  except:
      time.sleep(1)
  \<close>
\<close>

definition click_except :: "target \<Rightarrow> element \<Rightarrow> fault \<Rightarrow> browser \<Rightarrow> element option \<times> browser" where
  "click_except tg e f br =
     (case f of
        StaleElementReference \<Rightarrow>
          (case tg of
             Selectors selectors \<Rightarrow> wait_for_element selectors True br
           | Handle h \<Rightarrow> (None, br))
      | ElementClickIntercepted \<Rightarrow> (Some e, br)
      | OtherException \<Rightarrow> (Some e, br))"

fun click_attempts :: "target \<Rightarrow> element \<Rightarrow> bool \<Rightarrow> nat list \<Rightarrow> browser \<Rightarrow> bool \<times> browser" where
  "click_attempts tg e use_js [] br = (False, br)"
| "click_attempts tg e use_js (attempt # rest) br =
     (case click_once e use_js attempt br of
        (None, br1) \<Rightarrow> (True, br1)
      | (Some f, br1) \<Rightarrow>
          (case click_except tg e f br1 of
             (None, br2) \<Rightarrow> (False, br2)
           | (Some e', br2) \<Rightarrow> click_attempts tg e' use_js rest br2))"

definition safe_click :: "target \<Rightarrow> bool \<Rightarrow> nat \<Rightarrow> browser \<Rightarrow> bool \<times> browser" where
  "safe_click tg use_js max_attempts br =
     (case (case tg of
              Selectors selectors \<Rightarrow> wait_for_element selectors True br
            | Handle h \<Rightarrow> (Some h, br)) of
        (None, br1) \<Rightarrow> (False, br1)
      | (Some e, br1) \<Rightarrow> click_attempts tg e use_js [0..<max_attempts] br1)"

section \<open>ElementHelper: the searchable dropdown\<close>

text \<open>
  The two paths the driver builds from the value:
  \<^verbatim>\<open>
  f"//ul[contains(@class, 'vs__dropdown-menu')]//li[normalize-space()='{value_to_select}']"
  f"//ul[contains(@class, 'vs__dropdown-menu')]//li[contains(normalize-space(), '{value_to_select}')]"
  \<close>
\<close>

definition exact_match_xpath :: "string \<Rightarrow> string" where
  "exact_match_xpath v =
     ''//ul[contains(@class, 'vs__dropdown-menu')]//li[normalize-space()='' @ [CHR 0x27] @ v
       @ [CHR 0x27] @ '']''"

definition contains_xpath :: "string \<Rightarrow> string" where
  "contains_xpath v =
     ''//ul[contains(@class, 'vs__dropdown-menu')]//li[contains(normalize-space(), ''
       @ [CHR 0x27] @ v @ [CHR 0x27] @ '')]''"

text \<open>\<open>for char in value_to_select: input_field.send_keys(char)\<close>.\<close>

fun type_chars :: "element \<Rightarrow> string \<Rightarrow> browser \<Rightarrow> fault option \<times> browser" where
  "type_chars input_field [] br = (None, br)"
| "type_chars input_field (c # cs) br =
     (case perform (SendKeys input_field (Chars [c])) br of
        (None, br1) \<Rightarrow> type_chars input_field cs br1
      | (Some f, br1) \<Rightarrow> (Some f, br1))"

text \<open>
  \<^verbatim>\<open>
  try:
      input_field.clear()
      input_field.send_keys(Keys.CONTROL + "a")
      input_field.send_keys(Keys.DELETE)
  except:
      pass
  \<close>
\<close>

definition clear_input :: "element \<Rightarrow> browser \<Rightarrow> browser" where
  "clear_input input_field br =
     (case perform (Clear input_field) br of
        (Some f, br1) \<Rightarrow> br1
      | (None, br1) \<Rightarrow>
          (case perform (SendKeys input_field CONTROL_A) br1 of
             (Some f, br2) \<Rightarrow> br2
           | (None, br2) \<Rightarrow> snd (perform (SendKeys input_field DELETE) br2)))"

text \<open>\<open>try: input_field.send_keys(Keys.ESCAPE) except: pass\<close>.\<close>

definition press_escape :: "element \<Rightarrow> browser \<Rightarrow> browser" where
  "press_escape input_field br = snd (perform (SendKeys input_field ESCAPE) br)"

text \<open>
  The shape the first two strategies share: the option is waited for by its path, and if
  found it is clicked; true is \<open>return True\<close>.
  \<^verbatim>\<open>
  option = self.wait_for_element([exact_match_xpath], timeout=5)
  if option:
      if self.safe_click(option, f"Option '{value_to_select}'"):
          return True
  \<close>
\<close>

definition click_option :: "string \<Rightarrow> browser \<Rightarrow> bool \<times> browser" where
  "click_option xpath br =
     (case wait_for_element [xpath] True br of
        (None, br1) \<Rightarrow> (False, br1)
      | (Some opt, br1) \<Rightarrow> safe_click (Handle opt) False 3 br1)"

text \<open>
  The third:
  \<^verbatim>\<open>
  try:
      input_field.send_keys(Keys.ARROW_DOWN)
      input_field.send_keys(Keys.ENTER)
      return True
  except:
      pass
  try:
      input_field.send_keys(Keys.ESCAPE)
  except:
      pass
  \<close>
\<close>

definition keyboard_confirm :: "element \<Rightarrow> browser \<Rightarrow> bool \<times> browser" where
  "keyboard_confirm input_field br =
     (case perform (SendKeys input_field ARROW_DOWN) br of
        (Some f, br1) \<Rightarrow> (False, press_escape input_field br1)
      | (None, br1) \<Rightarrow>
          (case perform (SendKeys input_field ENTER) br1 of
             (Some f, br2) \<Rightarrow> (False, press_escape input_field br2)
           | (None, br2) \<Rightarrow> (True, br2)))"

text \<open>Lines 356 to 383 of an attempt: the three strategies, once the value is typed.\<close>

definition resolve_option :: "element \<Rightarrow> string \<Rightarrow> browser \<Rightarrow> bool \<times> browser" where
  "resolve_option input_field v br =
     (case click_option (exact_match_xpath v) br of
        (True, br1) \<Rightarrow> (True, br1)
      | (False, br1) \<Rightarrow>
          (case click_option (contains_xpath v) br1 of
             (True, br2) \<Rightarrow> (True, br2)
           | (False, br2) \<Rightarrow> keyboard_confirm input_field br2))"

text \<open>
  The handler of an attempt's \<open>try\<close>: the input is looked for again and sent an escape,
  whatever goes wrong there being passed over.
\<close>

definition dropdown_except :: "string list \<Rightarrow> browser \<Rightarrow> browser" where
  "dropdown_except input_selectors br =
     (case wait_for_element input_selectors True br of
        (None, br1) \<Rightarrow> br1
      | (Some input_field, br1) \<Rightarrow> snd (perform (SendKeys input_field ESCAPE) br1))"

text \<open>One attempt; true is \<open>return True\<close>, false goes on to the next attempt.\<close>

definition dropdown_attempt :: "string list \<Rightarrow> string \<Rightarrow> browser \<Rightarrow> bool \<times> browser" where
  "dropdown_attempt input_selectors v br =
     (case wait_for_element input_selectors True br of
        (None, br1) \<Rightarrow> (False, br1)
      | (Some input_field, br1) \<Rightarrow>
          (case perform (Scroll input_field) br1 of
             (Some f, br2) \<Rightarrow> (False, dropdown_except input_selectors br2)
           | (None, br2) \<Rightarrow>
               (case perform (Click input_field) br2 of
                  (Some f, br3) \<Rightarrow> (False, dropdown_except input_selectors br3)
                | (None, br3) \<Rightarrow>
                    (case type_chars input_field v (clear_input input_field br3) of
                       (Some f, br4) \<Rightarrow> (False, dropdown_except input_selectors br4)
                     | (None, br4) \<Rightarrow> resolve_option input_field v br4))))"

fun dropdown_loop :: "string list \<Rightarrow> string \<Rightarrow> nat list \<Rightarrow> browser \<Rightarrow> bool \<times> browser" where
  "dropdown_loop input_selectors v [] br = (False, br)"
| "dropdown_loop input_selectors v (attempt # rest) br =
     (case dropdown_attempt input_selectors v br of
        (True, br1) \<Rightarrow> (True, br1)
      | (False, br1) \<Rightarrow> dropdown_loop input_selectors v rest br1)"

definition handle_vue_select_dropdown ::
  "string list \<Rightarrow> string \<Rightarrow> nat \<Rightarrow> browser \<Rightarrow> bool \<times> browser"
where
  "handle_vue_select_dropdown input_selectors v max_retries br =
     dropdown_loop input_selectors v [0..<max_retries] br"

text \<open>
  The value is spliced into the path between single quotes. A value without a single
  quote is the content of the path's literal. A value with one ends the literal early:
  when it has an odd number of single quotes and no double quote, the path is left with
  a literal that never ends and is no XPath expression, so that the lookup raises, which
  the bare \<open>except\<close> of \<open>wait_for_element\<close> passes over as it does a timeout.
\<close>

definition apostrophes :: "string \<Rightarrow> nat" where
  "apostrophes v = length (filter (\<lambda>c. c = CHR 0x27) v)"

definition malformed :: "string \<Rightarrow> bool" where
  "malformed v = (odd (apostrophes v) \<and> CHR 0x22 \<notin> set v)"

text \<open>
  What the two paths select on a page that renders the options \<open>opts\<close>, in document
  order: \<open>normalize-space()\<close> trims the text and joins its words by single spaces, and
  a path gives a lookup its first match. A malformed path finds nothing; of the paths of
  other values with a single quote, which say something else than the value, nothing is
  said.
\<close>

definition xml_space :: "char \<Rightarrow> bool" where
  "xml_space c = (c = CHR 0x20 \<or> c = CHR 0x09 \<or> c = CHR 0x0A \<or> c = CHR 0x0D)"

fun xml_words :: "string \<Rightarrow> string \<Rightarrow> string list" where
  "xml_words [] w = (if w = [] then [] else [w])"
| "xml_words (c # cs) w =
     (if xml_space c then (if w = [] then xml_words cs [] else w # xml_words cs [])
      else xml_words cs (w @ [c]))"

fun join_words :: "string list \<Rightarrow> string" where
  "join_words [] = []"
| "join_words [w] = w"
| "join_words (w # ws) = w @ '' '' @ join_words ws"

definition normalize_space :: "string \<Rightarrow> string" where
  "normalize_space s = join_words (xml_words s [])"

definition renders :: "element list \<Rightarrow> string \<Rightarrow> page \<Rightarrow> bool" where
  "renders opts v pg =
     (if apostrophes v = 0
      then pg (By_XPATH, exact_match_xpath v) = find (\<lambda>e. normalize_space (el_text e) = v) opts
           \<and> pg (By_XPATH, contains_xpath v)
               = find (\<lambda>e. sublist v (normalize_space (el_text e))) opts
      else if malformed v
      then pg (By_XPATH, exact_match_xpath v) = None \<and> pg (By_XPATH, contains_xpath v) = None
      else True)"

text \<open>
  The actions of an attempt of the dropdown driver up to the typed value, when none of
  them faults: the input is scrolled to, clicked and cleared, and sent the characters.
\<close>

definition typing :: "element \<Rightarrow> string \<Rightarrow> action list" where
  "typing input_field v =
     [Scroll input_field, Click input_field, Clear input_field,
      SendKeys input_field CONTROL_A, SendKeys input_field DELETE]
     @ map (\<lambda>c. SendKeys input_field (Chars [c])) v"

text \<open>Elements and a browser for examples: a page that never changes, no fault.\<close>

definition example_element :: "string \<Rightarrow> bool \<Rightarrow> element" where
  "example_element name shown =
     \<lparr>el_id = name, el_text = name, el_displayed = shown, el_enabled = True\<rparr>"

definition example_browser :: "((strategy \<times> string) \<times> element) list \<Rightarrow> browser" where
  "example_browser found =
     \<lparr>tick = 0, dom_at = (\<lambda>t. map_of found), fault_at = (\<lambda>t. None), actions = []\<rparr>"

section \<open>AutomationBot: the workflow engine\<close>

text \<open>The entries of \<open>Config.SELECTORS\<close> the engine and the recovery use.\<close>

definition configuring_menu :: "string list" where
  "configuring_menu =
     [''#sidebar > ul > li:nth-child(3) > ul > li:nth-child(1) > a'',
      ''a[href*='configuring']'']"

definition dp_menu :: "string list" where
  "dp_menu = [''#menu_0_1 > ul > li:nth-child(4) > a'', ''a[href*='dp']'']"

definition city_input :: "string list" where
  "city_input =
     [''#vs1__combobox > div.vs__selected-options > input'', ''[id*='vs1'] input'',
      ''.vs__search'']"

definition rk_input :: "string list" where
  "rk_input = [''#vs2__combobox > div.vs__selected-options > input'', ''[id*='vs2'] input'']"

definition dp_input :: "string list" where
  "dp_input = [''#vs3__combobox > div.vs__selected-options > input'', ''[id*='vs3'] input'']"

definition filter_button :: "string list" where
  "filter_button =
     [''#dp_comp > div > div > div:nth-child(9) > div > a.btn.btn-primary'', ''.btn-primary'',
      ''button[type='submit']'']"

definition result_dp_code_cell :: "string list" where
  "result_dp_code_cell =
     [''#lists_dp > tbody > tr:first-child > td:nth-child(2)'',
      ''tbody tr:first-child td:nth-child(2)'']"

definition no_data_message :: "string list" where
  "no_data_message =
     [''//td[contains(text(),'No data available in table')]'',
      ''//td[contains(text(),'No data')]'', ''.dataTables_empty'']"

definition create_ticket_icon :: "string list" where
  "create_ticket_icon =
     [''#lists_dp > tbody > tr:first-child > td:nth-child(9) > a.btn.btn-success.btn-action > i'',
      ''tbody tr:first-child .btn-success i'', ''.btn-success'']"

definition final_create_button :: "string list" where
  "final_create_button =
     [''#dp_comp > div > div > div.v--modal-overlay.scrollable > div > div.v--modal-box.v--modal > div.modal-body.card.border-gradient-mask2 > div > div > div > div.row.justify-content-center > div > a'',
      ''.modal-body .btn-primary'', ''.v--modal .btn'']"

definition confirm_create_button :: "string list" where
  "confirm_create_button =
     [''body > div.swal2-container.swal2-center.swal2-backdrop-show > div > div.swal2-actions > button.swal2-confirm.swal2-styled'',
      ''.swal2-confirm'', ''.swal2-styled'']"

datatype validation_status = NO_DATA | MATCH | MISMATCH | VALIDATION_FAILED

text \<open>
  The search for a displayed "no data" indicator; true is \<open>return False, "NO_DATA"\<close>:
  \<^verbatim>\<open>
  for no_data_selector in config.SELECTORS['no_data_message']:
      try:
          if no_data_selector.startswith('//'):
              no_data_elem = self.driver.find_element(By.XPATH, no_data_selector)
          else:
              no_data_elem = self.driver.find_element(By.CSS_SELECTOR, no_data_selector)
          if no_data_elem.is_displayed():
              return False, "NO_DATA"
      except:
          continue
  \<close>
\<close>

fun no_data_shown :: "string list \<Rightarrow> browser \<Rightarrow> bool \<times> browser" where
  "no_data_shown [] br = (False, br)"
| "no_data_shown (no_data_selector # rest) br =
     (case look br of (pg, br1) \<Rightarrow>
        (case pg (if startswith no_data_selector ''//'' then By_XPATH else By_CSS_SELECTOR,
                  no_data_selector) of
           None \<Rightarrow> no_data_shown rest br1
         | Some no_data_elem \<Rightarrow>
             if el_displayed no_data_elem then (True, br1) else no_data_shown rest br1))"

text \<open>
  One attempt of \<open>validate_filter_result\<close>; \<open>None\<close> goes on to the next attempt (no
  row was found, or reading the cell raised):
  \<^verbatim>\<open>
  result_cell = self.helper.wait_for_element(
      config.SELECTORS['result_dp_code_cell'], timeout=10, clickable=False)
  if result_cell:
      result_dp_text = result_cell.text.strip()
      if result_dp_text == expected_kode_dp:
          return True, "MATCH"
      else:
          return False, "MISMATCH"
  \<close>
\<close>

definition validate_attempt :: "string \<Rightarrow> browser \<Rightarrow> validation_status option \<times> browser" where
  "validate_attempt expected_kode_dp br =
     (case no_data_shown no_data_message br of
        (True, br1) \<Rightarrow> (Some NO_DATA, br1)
      | (False, br1) \<Rightarrow>
          (case wait_for_element result_dp_code_cell False br1 of
             (None, br2) \<Rightarrow> (None, br2)
           | (Some result_cell, br2) \<Rightarrow>
               (case read_text result_cell br2 of
                  (None, br3) \<Rightarrow> (None, br3)
                | (Some t, br3) \<Rightarrow>
                    if strip t = expected_kode_dp then (Some MATCH, br3)
                    else (Some MISMATCH, br3))))"

fun validate_loop :: "string \<Rightarrow> nat list \<Rightarrow> browser \<Rightarrow> validation_status \<times> browser" where
  "validate_loop expected_kode_dp [] br = (VALIDATION_FAILED, br)"
| "validate_loop expected_kode_dp (attempt # rest) br =
     (case validate_attempt expected_kode_dp br of
        (Some status, br1) \<Rightarrow> (status, br1)
      | (None, br1) \<Rightarrow> validate_loop expected_kode_dp rest br1)"

text \<open>
  \<open>validate_filter_result\<close>; of the pair it returns, the caller uses the status only
  (the boolean is true for \<open>MATCH\<close> alone).
\<close>

definition validate_filter_result :: "string \<Rightarrow> nat \<Rightarrow> browser \<Rightarrow> validation_status \<times> browser" where
  "validate_filter_result expected_kode_dp max_attempts br =
     validate_loop expected_kode_dp [0..<max_attempts] br"

text \<open>
  The filter loop of \<open>process_ticket_creation\<close>. It ends by \<open>return False\<close>, or with
  \<open>validation_passed\<close> as the \<open>break\<close> or the end of the range leaves it.
  \<^verbatim>\<open>
  validation_passed = False
  for filter_attempt in range(3):
      if not self.helper.safe_click(filter_button, "Filter button", use_js=True):
          continue
      self.helper.wait_for_page_load()
      validation_result, validation_status = self.validate_filter_result(kode_dp_value)
      if validation_status == "NO_DATA":
          return False
      elif validation_status == "MATCH":
          validation_passed = True
          break
      elif validation_status == "MISMATCH":
          time.sleep(1)
          continue
      else:
          time.sleep(1)
          continue
  \<close>
\<close>

datatype filter_exit = Return_False | Validation_passed bool

fun filter_loop :: "element \<Rightarrow> string \<Rightarrow> nat list \<Rightarrow> browser \<Rightarrow> filter_exit \<times> browser" where
  "filter_loop button kode [] br = (Validation_passed False, br)"
| "filter_loop button kode (filter_attempt # rest) br =
     (case safe_click (Handle button) True 3 br of
        (False, br1) \<Rightarrow> filter_loop button kode rest br1
      | (True, br1) \<Rightarrow>
          (case validate_filter_result kode 3 (wait_for_page_load br1) of
             (NO_DATA, br2) \<Rightarrow> (Return_False, br2)
           | (MATCH, br2) \<Rightarrow> (Validation_passed True, br2)
           | (MISMATCH, br2) \<Rightarrow> filter_loop button kode rest br2
           | (VALIDATION_FAILED, br2) \<Rightarrow> filter_loop button kode rest br2))"

text \<open>
  The shape of each step of the ticket modal:
  \<^verbatim>\<open>
  x = self.helper.wait_for_element(config.SELECTORS[...])
  if not x or not self.helper.safe_click(x, "...", use_js=True):
      return False
  \<close>
\<close>

definition click_located :: "string list \<Rightarrow> browser \<Rightarrow> bool \<times> browser" where
  "click_located selectors br =
     (case wait_for_element selectors True br of
        (None, br1) \<Rightarrow> (False, br1)
      | (Some e, br1) \<Rightarrow> safe_click (Handle e) True 3 br1)"

text \<open>The ticket-modal stage: the rest of \<open>process_ticket_creation\<close> once validation passed.\<close>

definition ticket_modal :: "browser \<Rightarrow> bool \<times> browser" where
  "ticket_modal br =
     (case click_located create_ticket_icon br of
        (False, br1) \<Rightarrow> (False, br1)
      | (True, br1) \<Rightarrow>
          (case click_located final_create_button (wait_for_page_load br1) of
             (False, br2) \<Rightarrow> (False, br2)
           | (True, br2) \<Rightarrow> click_located confirm_create_button br2))"

text \<open>From the filter button on.\<close>

definition filter_and_create :: "string \<Rightarrow> browser \<Rightarrow> bool \<times> browser" where
  "filter_and_create kode br =
     (case wait_for_element filter_button True br of
        (None, br1) \<Rightarrow> (False, br1)
      | (Some button, br1) \<Rightarrow>
          (case filter_loop button kode [0..<3] br1 of
             (Return_False, br2) \<Rightarrow> (False, br2)
           | (Validation_passed False, br2) \<Rightarrow> (False, br2)
           | (Validation_passed True, br2) \<Rightarrow> ticket_modal br2))"

text \<open>
  \<open>process_ticket_creation\<close>; \<open>retries\<close> is \<open>config.DROPDOWN_RETRIES\<close>. None of the
  helpers raises, so the \<open>except Exception\<close> around the whole has nothing to catch.
\<close>

definition process_ticket_creation ::
  "nat \<Rightarrow> string \<Rightarrow> string \<Rightarrow> string \<Rightarrow> browser \<Rightarrow> bool \<times> browser"
where
  "process_ticket_creation retries city rk kode br =
     (case handle_vue_select_dropdown city_input city retries br of
        (False, br1) \<Rightarrow> (False, br1)
      | (True, br1) \<Rightarrow>
          (case handle_vue_select_dropdown rk_input rk retries br1 of
             (False, br2) \<Rightarrow> (False, br2)
           | (True, br2) \<Rightarrow>
               (case handle_vue_select_dropdown dp_input kode retries br2 of
                  (False, br3) \<Rightarrow> (False, br3)
                | (True, br3) \<Rightarrow> filter_and_create kode br3)))"

text \<open>
  \<open>navigate_to_dp_menu\<close> and \<open>handle_page_refresh_and_navigation\<close>; a refresh that
  raises is caught and gives false.
\<close>

definition navigate_to_dp_menu :: "browser \<Rightarrow> bool \<times> browser" where
  "navigate_to_dp_menu br =
     (case click_located configuring_menu br of
        (False, br1) \<Rightarrow> (False, br1)
      | (True, br1) \<Rightarrow>
          (case click_located dp_menu br1 of
             (False, br2) \<Rightarrow> (False, br2)
           | (True, br2) \<Rightarrow>
               (case wait_for_element city_input True (wait_for_page_load br2) of
                  (None, br3) \<Rightarrow> (False, br3)
                | (Some e, br3) \<Rightarrow> (True, br3))))"

definition handle_page_refresh_and_navigation :: "browser \<Rightarrow> bool \<times> browser" where
  "handle_page_refresh_and_navigation br =
     (case perform Refresh br of
        (Some f, br1) \<Rightarrow> (False, br1)
      | (None, br1) \<Rightarrow> navigate_to_dp_menu (wait_for_page_load br1))"

text \<open>
  The controller's environment over the browser, with no interrupt: the engine and the
  recovery are the functions above, and the login is left open.
\<close>

definition browser_env :: "nat \<Rightarrow> (browser \<Rightarrow> bool outcome \<times> browser) \<Rightarrow> browser env" where
  "browser_env retries login_fn =
     \<lparr>engine = (\<lambda>city rk kode br.
                  case process_ticket_creation retries city rk kode br of
                    (r, br1) \<Rightarrow> (Returns r, br1)),
      recover = (\<lambda>br. case handle_page_refresh_and_navigation br of
                         (r, br1) \<Rightarrow> (Returns r, br1)),
      login = login_fn,
      navigate = (\<lambda>br. case navigate_to_dp_menu br of (r, br1) \<Rightarrow> (Returns r, br1)),
      sleep = (\<lambda>n br. (None, br)),
      now = (\<lambda>br. int (tick br) * 1000000)\<rparr>"

text \<open>
  A page for examples: the three inputs, the filter button and the two menus are there,
  the dropdowns render no option, and the table shows the rows given.
\<close>

definition example_page :: "((strategy \<times> string) \<times> element) list \<Rightarrow> ((strategy \<times> string) \<times> element) list" where
  "example_page table =
     [((By_CSS_SELECTOR, hd city_input), example_element ''city'' True),
      ((By_CSS_SELECTOR, hd rk_input), example_element ''rk'' True),
      ((By_CSS_SELECTOR, hd dp_input), example_element ''dp'' True),
      ((By_CSS_SELECTOR, hd filter_button), example_element ''filter'' True),
      ((By_CSS_SELECTOR, hd configuring_menu), example_element ''configuring'' True),
      ((By_CSS_SELECTOR, hd dp_menu), example_element ''menu'' True)] @ table"

definition no_data_table :: "((strategy \<times> string) \<times> element) list" where
  "no_data_table = [((By_CSS_SELECTOR, ''.dataTables_empty''), example_element ''No data available in table'' True)]"

text \<open>How often the script click on an element took effect.\<close>

definition clicks_on :: "element \<Rightarrow> browser \<Rightarrow> nat" where
  "clicks_on e br = length (filter (\<lambda>a. a = ScriptClick e) (actions br))"

text \<open>Whether the lookup of the \<open>i\<close>-th selector of the indicator finds it displayed.\<close>

definition indicator_displayed :: "browser \<Rightarrow> string list \<Rightarrow> nat \<Rightarrow> bool" where
  "indicator_displayed br selectors i =
     (case dom_at br (tick br + i)
             (if startswith (selectors ! i) ''//'' then By_XPATH else By_CSS_SELECTOR,
              selectors ! i) of
        None \<Rightarrow> False
      | Some e \<Rightarrow> el_displayed e)"

text \<open>
  A page that renders the options for a value, or for a value with a single quote finds
  nothing by its paths, and elsewhere finds what is listed.
\<close>

definition rendered_page ::
  "element list \<Rightarrow> string \<Rightarrow> ((strategy \<times> string) \<times> element) list \<Rightarrow> page"
where
  "rendered_page opts v found loc =
     (if loc = (By_XPATH, exact_match_xpath v)
      then (if apostrophes v = 0 then find (\<lambda>e. normalize_space (el_text e) = v) opts else None)
      else if loc = (By_XPATH, contains_xpath v)
      then (if apostrophes v = 0 then find (\<lambda>e. sublist v (normalize_space (el_text e))) opts
            else None)
      else map_of found loc)"

text \<open>Browsers for examples: the page with no data, and a page rendering options.\<close>

definition no_data_browser :: browser where
  "no_data_browser = example_browser (example_page no_data_table)"

definition menu_browser ::
  "element list \<Rightarrow> string \<Rightarrow> ((strategy \<times> string) \<times> element) list \<Rightarrow> browser"
where
  "menu_browser opts v found =
     \<lparr>tick = 0, dom_at = (\<lambda>t. rendered_page opts v found), fault_at = (\<lambda>t. None),
      actions = []\<rparr>"

section \<open>The daily code list keeps first occurrences\<close>

lemma keep_first_set: "set (keep_first xs) = set xs"
  by (induction xs rule: keep_first.induct) auto

lemma keep_first_distinct: "distinct (keep_first xs)"
  by (induction xs rule: keep_first.induct) (auto simp: keep_first_set)

lemma keep_first_subseq: "subseq (keep_first xs) xs"
proof (induction xs rule: keep_first.induct)
  case 1 show ?case by simp
next
  case (2 x xs)
  have "subseq (filter (\<lambda>y. y \<noteq> x) xs) xs" by simp
  with 2 have "subseq (keep_first (filter (\<lambda>y. y \<noteq> x) xs)) xs"
    using subseq_order.order_trans by blast
  then show ?case by simp
qed

lemma daily_loop_eq:
  "daily_loop ls seen acc =
     acc @ keep_first (filter (\<lambda>l. is_code_line l \<and> l \<notin> seen) (map strip ls))"
proof (induction ls arbitrary: seen acc)
  case Nil show ?case by simp
next
  case (Cons raw rest)
  have f: "filter (\<lambda>y. y \<noteq> strip raw) (filter (\<lambda>l. is_code_line l \<and> l \<notin> seen) (map strip rest))
        = filter (\<lambda>l. is_code_line l \<and> l \<notin> insert (strip raw) seen) (map strip rest)"
    by (auto intro: filter_cong)
  show ?case
    using f by (simp add: Cons.IH Let_def is_code_line_def)
qed

text \<open>
  C6. The loaded code list is the trimmed lines that are neither blank nor comments
  (starting with \<open>#\<close>), with every later duplicate of a code dropped and the order of
  the file kept otherwise; the lines \<open>A, B, A\<close> load as \<open>A, B\<close>.
\<close>

theorem read_daily_input_keeps_first:
  "read_daily_input ls = keep_first (filter is_code_line (map strip ls))
   \<and> distinct (read_daily_input ls)
   \<and> set (read_daily_input ls) = {c. c \<in> strip ` set ls \<and> c \<noteq> [] \<and> \<not> startswith c ''#''}
   \<and> subseq (read_daily_input ls) (map strip ls)
   \<and> read_daily_input [''A'', ''B'', ''A''] = [''A'', ''B'']"
proof -
  have e: "read_daily_input ls = keep_first (filter is_code_line (map strip ls))" for ls
    by (simp add: read_daily_input_def daily_loop_eq)
  have s: "subseq (read_daily_input ls) (map strip ls)"
    unfolding e using keep_first_subseq[of "filter is_code_line (map strip ls)"]
    by (meson subseq_filter_left subseq_order.order_trans)
  have x: "read_daily_input [''A'', ''B'', ''A''] = [''A'', ''B'']"
    by (simp add: read_daily_input_def strip_def is_space_def startswith_def)
  show ?thesis
    using s x by (auto simp: e keep_first_distinct keep_first_set is_code_line_def)
qed

section \<open>The lookup table holds complete rows only, the last one of each code\<close>

lemma load_rows_step:
  "load_rows (r # rest) n md =
     load_rows rest (n + 1)
       (if complete_row r then AList.update (row_code r) (row_entry r n) md else md)"
  by (simp add: complete_row_def row_code_def row_entry_def split: option.splits)

lemma load_rows_lookup:
  "map_of (load_rows rows n md) k =
     (case last_complete_row k n rows of None \<Rightarrow> map_of md k | Some e \<Rightarrow> Some e)"
proof (induction rows arbitrary: n md)
  case Nil show ?case by simp
next
  case (Cons r rest)
  show ?case
    unfolding load_rows_step
    by (simp add: Cons.IH update_conv' split: option.splits)
qed

lemma load_rows_length:
  "length (load_rows rows n md) \<le> length md + length (filter complete_row rows)"
proof (induction rows arbitrary: n md)
  case Nil show ?case by simp
next
  case (Cons r rest)
  have "length (AList.update (row_code r) (row_entry r n) md) \<le> Suc (length md)"
    using arg_cong[OF update_keys[of "row_code r" "row_entry r n" md], of length]
    by (simp split: if_splits)
  then show ?case
    unfolding load_rows_step using Cons.IH[of "n+1" "AList.update (row_code r) (row_entry r n) md"]
      Cons.IH[of "n+1" md]
    by (auto simp del: load_rows.simps)
qed

lemma load_rows_distinct:
  "distinct (map fst md) \<Longrightarrow> distinct (map fst (load_rows rows n md))"
proof (induction rows arbitrary: n md)
  case Nil then show ?case by simp
next
  case (Cons r rest)
  then show ?case
    unfolding load_rows_step by (simp add: distinct_update del: load_rows.simps)
qed

lemma last_complete_row_complete:
  "last_complete_row k n rows = Some e \<Longrightarrow> k \<noteq> [] \<and> City e \<noteq> [] \<and> RK e \<noteq> []"
proof (induction rows arbitrary: n)
  case Nil then show ?case by simp
next
  case (Cons r rest)
  then show ?case
    by (auto simp: complete_row_def row_code_def row_entry_def split: option.splits if_splits)
qed

lemma last_complete_row_None:
  "(last_complete_row k n rows = None) = (\<forall>r \<in> set rows. \<not> (complete_row r \<and> row_code r = k))"
proof (induction rows arbitrary: n)
  case Nil show ?case by simp
next
  case (Cons a rows)
  show ?case
  proof (cases "last_complete_row k (n + 1) rows")
    case None
    with Cons.IH[of "n + 1"] show ?thesis by auto
  next
    case (Some e)
    with Cons.IH[of "n + 1"] show ?thesis by auto
  qed
qed

lemma last_complete_row_append:
  "complete_row r \<Longrightarrow> \<forall>r' \<in> set post. \<not> (complete_row r' \<and> row_code r' = row_code r) \<Longrightarrow>
   last_complete_row (row_code r) n (pre @ r # post) = Some (row_entry r (n + length pre))"
proof (induction pre arbitrary: n)
  case Nil
  then show ?case using last_complete_row_None[of "row_code r" "n+1" post] by simp
next
  case (Cons a pre)
  then show ?case by simp
qed

text \<open>
  C7. Whatever the rows, the loaded table has at most as many entries as there are
  complete rows (so at most as many as rows), its keys are distinct, the entry of a code
  is that of the last complete row carrying it, no entry has a blank code, city or region,
  and a code carried by incomplete rows only has no entry.
\<close>

theorem load_master_data_complete_last_wins:
  assumes "load_master_data fieldnames rows = Some md"
  shows "length md \<le> length (filter complete_row rows)
       \<and> length (filter complete_row rows) \<le> length rows
       \<and> distinct (map fst md)
       \<and> map_of md k = last_complete_row k 2 rows
       \<and> (\<forall>e. map_of md k = Some e \<longrightarrow> k \<noteq> [] \<and> City e \<noteq> [] \<and> RK e \<noteq> [])
       \<and> ((\<forall>r \<in> set rows. \<not> (complete_row r \<and> row_code r = k)) \<longrightarrow> map_of md k = None)
       \<and> (\<forall>pre r post. rows = pre @ r # post \<and> complete_row r \<and> row_code r = k
              \<and> (\<forall>r' \<in> set post. \<not> (complete_row r' \<and> row_code r' = k))
            \<longrightarrow> map_of md k = Some (row_entry r (length pre + 2)))"
proof -
  from assms have md: "md = load_rows rows 2 []"
    by (auto simp: load_master_data_def Let_def split: if_splits)
  have len: "length md \<le> length (filter complete_row rows)"
    using load_rows_length[of rows 2 "[]"] by (simp add: md)
  have dist: "distinct (map fst md)"
    unfolding md by (rule load_rows_distinct) simp
  have look: "map_of md k = last_complete_row k 2 rows" for k
    unfolding md by (simp add: load_rows_lookup split: option.splits)
  have compl: "\<forall>e. map_of md k = Some e \<longrightarrow> k \<noteq> [] \<and> City e \<noteq> [] \<and> RK e \<noteq> []"
    unfolding look using last_complete_row_complete by blast
  have none: "(\<forall>r \<in> set rows. \<not> (complete_row r \<and> row_code r = k)) \<longrightarrow> map_of md k = None"
    unfolding look by (simp add: last_complete_row_None)
  have last: "\<forall>pre r post. rows = pre @ r # post \<and> complete_row r \<and> row_code r = k
              \<and> (\<forall>r' \<in> set post. \<not> (complete_row r' \<and> row_code r' = k))
            \<longrightarrow> map_of md k = Some (row_entry r (length pre + 2))"
    unfolding look using last_complete_row_append[where n = 2] by (auto simp: add.commute)
  show ?thesis
    using len dist look compl none last by simp
qed

theorem load_master_data_complete_last_wins_witness:
  "load_master_data [''Kode_DP'', ''City'', ''RK'']
     [[''Kode_DP'' \<mapsto> Some ''DP001'', ''City'' \<mapsto> Some '' '', ''RK'' \<mapsto> Some ''Y''],
      [''Kode_DP'' \<mapsto> Some ''DP001'', ''City'' \<mapsto> Some ''X'', ''RK'' \<mapsto> Some ''Y''],
      [''Kode_DP'' \<mapsto> Some '' DP001'', ''City'' \<mapsto> Some ''Z'', ''RK'' \<mapsto> Some ''W'']]
     = Some [(''DP001'', \<lparr>City = ''Z'', RK = ''W'', row_number = 4\<rparr>)]
   \<and> map_of [(''DP001'', \<lparr>City = ''Z'', RK = ''W'', row_number = 4\<rparr>)] ''DP001''
     = last_complete_row ''DP001'' 2
     [[''Kode_DP'' \<mapsto> Some ''DP001'', ''City'' \<mapsto> Some '' '', ''RK'' \<mapsto> Some ''Y''],
      [''Kode_DP'' \<mapsto> Some ''DP001'', ''City'' \<mapsto> Some ''X'', ''RK'' \<mapsto> Some ''Y''],
      [''Kode_DP'' \<mapsto> Some '' DP001'', ''City'' \<mapsto> Some ''Z'', ''RK'' \<mapsto> Some ''W'']]"
proof -
  have h: "load_master_data [''Kode_DP'', ''City'', ''RK'']
     [[''Kode_DP'' \<mapsto> Some ''DP001'', ''City'' \<mapsto> Some '' '', ''RK'' \<mapsto> Some ''Y''],
      [''Kode_DP'' \<mapsto> Some ''DP001'', ''City'' \<mapsto> Some ''X'', ''RK'' \<mapsto> Some ''Y''],
      [''Kode_DP'' \<mapsto> Some '' DP001'', ''City'' \<mapsto> Some ''Z'', ''RK'' \<mapsto> Some ''W'']]
     = Some [(''DP001'', \<lparr>City = ''Z'', RK = ''W'', row_number = 4\<rparr>)]"
    by (simp add: load_master_data_def required_fields_def cell_def strip_def is_space_def)
  note t = load_master_data_complete_last_wins[OF h, of "''DP001''"]
  note c = t[THEN conjunct2, THEN conjunct2, THEN conjunct2, THEN conjunct1]
  show ?thesis
    by (rule conjI[OF h c])
qed

section \<open>The attempts of one item\<close>

lemma emit_fields [simp]:
  "processed_dps (emit e b) = processed_dps b"
  "successful (emit e b) = successful b"
  "failed (emit e b) = failed b"
  "skipped (emit e b) = skipped b"
  "start_time (emit e b) = start_time b"
  "end_time (emit e b) = end_time b"
  "driver_open (emit e b) = driver_open b"
  "logged (emit e b) = logged b @ [e]"
  by (simp_all add: emit_def)

lemma attempts_of_append [simp]:
  "attempts_of kode (xs @ ys) = attempts_of kode xs @ attempts_of kode ys"
  by (simp add: attempts_of_def map_filter_def)

lemma attempts_of_simps [simp]:
  "attempts_of kode [] = []"
  "attempts_of kode (e # es) = (case attempt_of kode e of None \<Rightarrow> attempts_of kode es | Some r \<Rightarrow> r # attempts_of kode es)"
  by (simp_all add: attempts_of_def map_filter_def split: option.splits)

lemma wrote_emit: "wrote b [e] (emit e b)"
  by (simp add: wrote_def emit_def)

lemma wrote_trans: "wrote b xs b1 \<Longrightarrow> wrote b1 ys b2 \<Longrightarrow> wrote b (xs @ ys) b2"
  by (simp add: wrote_def)

lemma wrote_refl: "wrote b [] b"
  by (simp add: wrote_def)

lemma attempt_except_wrote:
  "attempt_except ev cfg attempt (b, w) = (r, b', w') \<Longrightarrow> wrote b [AttemptError (attempt + 1)] b'"
  by (auto simp: attempt_except_def Let_def wrote_emit split: if_splits prod.splits option.splits)

lemma attempt_body_wrote:
  assumes "attempt_body ev cfg city rk kode attempt (b, w) = (r, b', w')"
  shows "\<exists>new. wrote b (Attempt kode attempt (fst (engine ev city rk kode w)) # new) b'
              \<and> list_all (attempt_line kode) new \<and> attempts_of kode new = []
              \<and> (r = Normal (Some True)) = (fst (engine ev city rk kode w) = Returns True)
              \<and> (r = Normal None \<longrightarrow> fst (engine ev city rk kode w) \<noteq> Returns True)"
  using assms
  apply (simp add: attempt_body_def Let_def split: prod.splits outcome.splits bool.splits exn.splits if_splits option.splits flow.splits)
  apply (auto simp: wrote_def emit_def dest!: attempt_except_wrote)
  done

lemma attempt_loop_wrote:
  "attempt_loop ev cfg city rk kode idxs (b, w) = (r, b', w') \<Longrightarrow>
   \<exists>new. wrote b new b' \<and> list_all (attempt_line kode) new
       \<and> length (attempts_of kode new) \<le> length idxs
       \<and> (r = Normal True) = (Returns True \<in> set (attempts_of kode new))
       \<and> Returns True \<notin> set (butlast (attempts_of kode new))"
proof (induction idxs arbitrary: b w)
  case Nil
  then show ?case by (intro exI[of _ "[]"]) (auto simp: wrote_def)
next
  case (Cons attempt rest)
  obtain r1 b1 w1 where body: "attempt_body ev cfg city rk kode attempt (b, w) = (r1, b1, w1)"
    by (metis prod_cases3)
  from attempt_body_wrote[OF body] obtain new1 where
    w1: "wrote b (Attempt kode attempt (fst (engine ev city rk kode w)) # new1) b1"
    and l1: "list_all (attempt_line kode) new1" and a1: "attempts_of kode new1 = []"
    and t1: "(r1 = Normal (Some True)) = (fst (engine ev city rk kode w) = Returns True)"
    and n1: "r1 = Normal None \<longrightarrow> fst (engine ev city rk kode w) \<noteq> Returns True"
    by blast
  let ?x = "fst (engine ev city rk kode w)"
  let ?new1 = "Attempt kode attempt ?x # new1"
  have at1: "attempts_of kode ?new1 = [?x]" using a1 by simp
  have ll1: "list_all (attempt_line kode) ?new1" using l1 by simp
  show ?case
  proof (cases r1)
    case (Abort i)
    with Cons.prems body have "r = Abort i" "b' = b1" by auto
    with w1 ll1 at1 t1 Abort show ?thesis
      by (intro exI[of _ ?new1]) auto
  next
    case (Normal v)
    show ?thesis
    proof (cases v)
      case (Some u)
      with Normal Cons.prems body have "r = Normal u" "b' = b1" by auto
      with w1 ll1 at1 t1 Normal Some show ?thesis
        by (intro exI[of _ ?new1]) auto
    next
      case None
      with Normal Cons.prems body
      have rest: "attempt_loop ev cfg city rk kode rest (b1, w1) = (r, b', w')" by auto
      from Cons.IH[OF rest] obtain new2 where
        w2: "wrote b1 new2 b'" and l2: "list_all (attempt_line kode) new2"
        and n2: "length (attempts_of kode new2) \<le> length rest"
        and t2: "(r = Normal True) = (Returns True \<in> set (attempts_of kode new2))"
        and b2: "Returns True \<notin> set (butlast (attempts_of kode new2))"
        by blast
      have x: "?x \<noteq> Returns True" using n1 Normal None by simp
      have "wrote b (?new1 @ new2) b'" using wrote_trans[OF w1 w2] .
      moreover have "list_all (attempt_line kode) (?new1 @ new2)" using ll1 l2 by simp
      moreover have "attempts_of kode (?new1 @ new2) = ?x # attempts_of kode new2"
        using at1 by (simp only: attempts_of_append) simp
      ultimately show ?thesis
        using n2 t2 b2 x by (intro exI[of _ "?new1 @ new2"]) (auto simp: butlast.simps)
    qed
  qed
qed

lemma unint_engine: "uninterrupted ev \<Longrightarrow> engine ev c r k w = (Raises (Interrupt j), w1) \<Longrightarrow> False"
  unfolding uninterrupted_def by (metis fst_conv)

lemma unint_recover: "uninterrupted ev \<Longrightarrow> recover ev w = (Raises (Interrupt j), w1) \<Longrightarrow> False"
  unfolding uninterrupted_def by (metis fst_conv)

lemma unint_sleep: "uninterrupted ev \<Longrightarrow> sleep ev n w = (Some j, w1) \<Longrightarrow> False"
  unfolding uninterrupted_def by (metis fst_conv option.distinct(1))

lemma attempt_except_uninterrupted:
  "uninterrupted ev \<Longrightarrow> attempt_except ev cfg attempt s = (Abort i, s') \<Longrightarrow> False"
  by (auto simp: attempt_except_def Let_def split: prod.splits option.splits if_splits
      dest: unint_sleep)

lemma attempt_body_uninterrupted:
  "uninterrupted ev \<Longrightarrow> attempt_body ev cfg city rk kode attempt s = (Abort i, s') \<Longrightarrow> False"
  by (auto simp: attempt_body_def Let_def
      split: prod.splits outcome.splits bool.splits exn.splits if_splits option.splits flow.splits
      dest: unint_sleep unint_engine unint_recover attempt_except_uninterrupted)

lemma attempt_loop_uninterrupted:
  "uninterrupted ev \<Longrightarrow> attempt_loop ev cfg city rk kode idxs s = (Abort i, s') \<Longrightarrow> False"
proof (induction idxs arbitrary: s)
  case Nil
  then show ?case by simp
next
  case (Cons attempt rest)
  obtain r1 s1 where body: "attempt_body ev cfg city rk kode attempt s = (r1, s1)"
    by (cases "attempt_body ev cfg city rk kode attempt s")
  show ?case
  proof (cases r1)
    case (Abort j)
    with body attempt_body_uninterrupted[OF Cons.prems(1)] show ?thesis by blast
  next
    case (Normal v)
    show ?thesis
    proof (cases v)
      case None
      with Normal body Cons.prems(2)
      have "attempt_loop ev cfg city rk kode rest s1 = (Abort i, s')" by simp
      with Cons.IH[OF Cons.prems(1)] show ?thesis by blast
    next
      case (Some u)
      with Normal body Cons.prems(2) show ?thesis by simp
    qed
  qed
qed

lemma attempt_body_gives_up:
  "attempt_body ev cfg city rk kode attempt (b, w) = (Normal (Some False), s') \<Longrightarrow>
     \<exists>w1 w2. recover ev w1 = (Returns False, w2)"
  by (auto simp: attempt_body_def Let_def
      split: prod.splits outcome.splits bool.splits exn.splits if_splits option.splits flow.splits)

lemma attempt_start_Suc:
  "attempt_body ev cfg city rk kode i (attempt_start ev cfg city rk kode i s) = (r, s') \<Longrightarrow>
     attempt_start ev cfg city rk kode (Suc i) s = s'"
  by simp

lemma attempt_step:
  assumes quiet: "uninterrupted ev"
    and body: "attempt_body ev cfg city rk kode i (attempt_start ev cfg city rk kode i s) = (r, s')"
  shows "s' = attempt_start ev cfg city rk kode (Suc i) s
     \<and> (\<exists>new. wrote (fst (attempt_start ev cfg city rk kode i s))
                  (Attempt kode i (engine_at ev cfg city rk kode i s) # new) (fst s')
             \<and> list_all (attempt_line kode) new \<and> attempts_of kode new = [])
     \<and> (r = Normal (Some True)) = (engine_at ev cfg city rk kode i s = Returns True)
     \<and> (r = Normal (Some False) \<longrightarrow> \<not> recovering ev)
     \<and> (\<forall>j. r \<noteq> Abort j)"
proof -
  obtain b0 w0 where s0: "attempt_start ev cfg city rk kode i s = (b0, w0)"
    by (cases "attempt_start ev cfg city rk kode i s")
  obtain b1 w1 where s1: "s' = (b1, w1)" by (cases s')
  from body s0 s1 have bd: "attempt_body ev cfg city rk kode i (b0, w0) = (r, b1, w1)" by simp
  from attempt_body_wrote[OF bd] obtain new where
    w: "wrote b0 (Attempt kode i (fst (engine ev city rk kode w0)) # new) b1"
    and l: "list_all (attempt_line kode) new" and a: "attempts_of kode new = []"
    and t: "(r = Normal (Some True)) = (fst (engine ev city rk kode w0) = Returns True)"
    by blast
  have e: "engine_at ev cfg city rk kode i s = fst (engine ev city rk kode w0)"
    by (simp add: engine_at_def s0)
  have g: "r = Normal (Some False) \<longrightarrow> \<not> recovering ev"
  proof
    assume "r = Normal (Some False)"
    with bd attempt_body_gives_up[of ev cfg city rk kode i b0 w0 "(b1, w1)"]
    obtain w1 w2 where "recover ev w1 = (Returns False, w2)" by blast
    then have "fst (recover ev w1) = Returns False" by simp
    then show "\<not> recovering ev" unfolding recovering_def by blast
  qed
  have n: "\<forall>j. r \<noteq> Abort j"
    using attempt_body_uninterrupted[OF quiet, of cfg city rk kode i "(b0, w0)"] bd by blast
  have st: "s' = attempt_start ev cfg city rk kode (Suc i) s"
    using body by simp
  from w l a have ex: "\<exists>new. wrote (fst (attempt_start ev cfg city rk kode i s))
                  (Attempt kode i (engine_at ev cfg city rk kode i s) # new) (fst s')
             \<and> list_all (attempt_line kode) new \<and> attempts_of kode new = []"
    unfolding e s0 s1 by auto
  from st ex t g n show ?thesis unfolding e by blast
qed

lemma attempts_of_line:
  "attempts_of kode new = [] \<Longrightarrow> attempts_of kode (Attempt kode i x # new) = [x]"
  by simp

text \<open>The attempts from index \<open>j\<close> on, when the engine succeeds at none of them.\<close>

lemma attempt_loop_all_fail:
  assumes quiet: "uninterrupted ev"
  shows "j \<le> n \<Longrightarrow>
     list_all (\<lambda>i. engine_at ev cfg city rk kode i s \<noteq> Returns True) [j..<n] \<Longrightarrow>
     \<exists>s' new. attempt_loop ev cfg city rk kode [j..<n] (attempt_start ev cfg city rk kode j s)
                  = (Normal False, s')
         \<and> wrote (fst (attempt_start ev cfg city rk kode j s)) new (fst s')
         \<and> (recovering ev \<longrightarrow>
              attempts_of kode new = map (\<lambda>i. engine_at ev cfg city rk kode i s) [j..<n])"
proof (induction "n - j" arbitrary: j)
  case 0
  then have e: "[j..<n] = []" by simp
  show ?case
    apply (rule exI[of _ "attempt_start ev cfg city rk kode j s"], rule exI[of _ "[]"])
    apply (simp add: e wrote_refl)
    done
next
  case (Suc d)
  then have jn: "j < n" by simp
  then have up: "[j..<n] = j # [Suc j..<n]" by (simp add: upt_conv_Cons)
  let ?S = "attempt_start ev cfg city rk kode"
  let ?E = "\<lambda>i. engine_at ev cfg city rk kode i s"
  obtain r s1 where body: "attempt_body ev cfg city rk kode j (?S j s) = (r, s1)"
    by (cases "attempt_body ev cfg city rk kode j (?S j s)")
  from attempt_step[OF quiet body] obtain new1 where
    st: "s1 = ?S (Suc j) s"
    and w1: "wrote (fst (?S j s)) (Attempt kode j (?E j) # new1) (fst s1)"
    and a1: "attempts_of kode new1 = []"
    and t1: "(r = Normal (Some True)) = (?E j = Returns True)"
    and g1: "r = Normal (Some False) \<longrightarrow> \<not> recovering ev"
    and n1: "\<forall>i. r \<noteq> Abort i"
    by blast
  from Suc.prems(2) up have ej: "?E j \<noteq> Returns True"
    and rest: "list_all (\<lambda>i. ?E i \<noteq> Returns True) [Suc j..<n]" by simp_all
  have at1: "attempts_of kode (Attempt kode j (?E j) # new1) = [?E j]"
    using attempts_of_line[OF a1] .
  show ?case
  proof (cases r)
    case (Abort i)
    with n1 show ?thesis by blast
  next
    case (Normal v)
    show ?thesis
    proof (cases v)
      case (Some u)
      with Normal t1 ej have u: "u = False" by (cases u) auto
      with Normal Some g1 have nr: "\<not> recovering ev" by simp
      have "attempt_loop ev cfg city rk kode [j..<n] (?S j s) = (Normal False, s1)"
        unfolding up using body Normal Some u by simp
      with w1 nr show ?thesis by blast
    next
      case None
      have d: "d = n - Suc j" using Suc.hyps(2) by simp
      have le: "Suc j \<le> n" using jn by simp
      from Suc.hyps(1)[OF d le rest] obtain s' new2 where
        al: "attempt_loop ev cfg city rk kode [Suc j..<n] (?S (Suc j) s) = (Normal False, s')"
        and w2: "wrote (fst (?S (Suc j) s)) new2 (fst s')"
        and a2: "recovering ev \<longrightarrow> attempts_of kode new2 = map ?E [Suc j..<n]"
        by blast
      have al': "attempt_loop ev cfg city rk kode [j..<n] (?S j s) = (Normal False, s')"
        unfolding up using body Normal None al st by (simp del: attempt_start.simps)
      have w: "wrote (fst (?S j s)) ((Attempt kode j (?E j) # new1) @ new2) (fst s')"
        using wrote_trans[OF w1] w2 st by (simp del: attempt_start.simps)
      have a: "recovering ev \<longrightarrow>
          attempts_of kode ((Attempt kode j (?E j) # new1) @ new2) = map ?E [j..<n]"
        using a2 at1 unfolding up by (simp only: attempts_of_append) simp
      from al' w a show ?thesis by blast
    qed
  qed
qed

text \<open>The attempts from index \<open>j\<close> on, when the engine succeeds first at attempt \<open>k\<close>.\<close>

lemma attempt_loop_first_success:
  assumes quiet: "uninterrupted ev" and rec: "recovering ev"
  shows "j \<le> k \<Longrightarrow> k < n \<Longrightarrow>
     list_all (\<lambda>i. engine_at ev cfg city rk kode i s \<noteq> Returns True) [j..<k] \<Longrightarrow>
     engine_at ev cfg city rk kode k s = Returns True \<Longrightarrow>
     \<exists>s' new. attempt_loop ev cfg city rk kode [j..<n] (attempt_start ev cfg city rk kode j s)
                  = (Normal True, s')
         \<and> wrote (fst (attempt_start ev cfg city rk kode j s)) new (fst s')
         \<and> attempts_of kode new = map (\<lambda>i. engine_at ev cfg city rk kode i s) [j..<Suc k]"
proof (induction "k - j" arbitrary: j)
  case 0
  then have jk: "j = k" by simp
  let ?S = "attempt_start ev cfg city rk kode"
  let ?E = "\<lambda>i. engine_at ev cfg city rk kode i s"
  have up: "[j..<n] = j # [Suc j..<n]" using 0 jk by (simp add: upt_conv_Cons)
  obtain r s1 where body: "attempt_body ev cfg city rk kode j (?S j s) = (r, s1)"
    by (cases "attempt_body ev cfg city rk kode j (?S j s)")
  from attempt_step[OF quiet body] obtain new1 where
    w1: "wrote (fst (?S j s)) (Attempt kode j (?E j) # new1) (fst s1)"
    and a1: "attempts_of kode new1 = []"
    and t1: "(r = Normal (Some True)) = (?E j = Returns True)"
    by blast
  from t1 0(5) jk have r: "r = Normal (Some True)" by simp
  have al: "attempt_loop ev cfg city rk kode [j..<n] (?S j s) = (Normal True, s1)"
    unfolding up using body r by simp
  have at: "attempts_of kode (Attempt kode j (?E j) # new1) = map ?E [j..<Suc k]"
    using attempts_of_line[OF a1] jk by simp
  from al w1 at show ?case by blast
next
  case (Suc d)
  then have jk: "j < k" by simp
  with Suc.prems have jn: "j < n" by simp
  then have up: "[j..<n] = j # [Suc j..<n]" by (simp add: upt_conv_Cons)
  have upk: "[j..<k] = j # [Suc j..<k]" using jk by (simp add: upt_conv_Cons)
  have upk': "[j..<Suc k] = j # [Suc j..<Suc k]" using jk by (simp add: upt_conv_Cons)
  let ?S = "attempt_start ev cfg city rk kode"
  let ?E = "\<lambda>i. engine_at ev cfg city rk kode i s"
  obtain r s1 where body: "attempt_body ev cfg city rk kode j (?S j s) = (r, s1)"
    by (cases "attempt_body ev cfg city rk kode j (?S j s)")
  from attempt_step[OF quiet body] obtain new1 where
    st: "s1 = ?S (Suc j) s"
    and w1: "wrote (fst (?S j s)) (Attempt kode j (?E j) # new1) (fst s1)"
    and a1: "attempts_of kode new1 = []"
    and t1: "(r = Normal (Some True)) = (?E j = Returns True)"
    and g1: "r = Normal (Some False) \<longrightarrow> \<not> recovering ev"
    and n1: "\<forall>i. r \<noteq> Abort i"
    by blast
  from Suc.prems(3) upk have ej: "?E j \<noteq> Returns True"
    and rest: "list_all (\<lambda>i. ?E i \<noteq> Returns True) [Suc j..<k]" by simp_all
  have at1: "attempts_of kode (Attempt kode j (?E j) # new1) = [?E j]"
    using attempts_of_line[OF a1] .
  have r: "r = Normal None"
  proof (cases r)
    case (Abort i)
    with n1 show ?thesis by blast
  next
    case (Normal v)
    show ?thesis
    proof (cases v)
      case None
      with Normal show ?thesis by simp
    next
      case (Some u)
      with Normal t1 ej have "u = False" by (cases u) auto
      with Normal Some g1 rec show ?thesis by simp
    qed
  qed
  have d: "d = k - Suc j" using Suc.hyps(2) by simp
  have le: "Suc j \<le> k" using jk by simp
  from Suc.hyps(1)[OF d le Suc.prems(2) rest Suc.prems(4)] obtain s' new2 where
    al: "attempt_loop ev cfg city rk kode [Suc j..<n] (?S (Suc j) s) = (Normal True, s')"
    and w2: "wrote (fst (?S (Suc j) s)) new2 (fst s')"
    and a2: "attempts_of kode new2 = map ?E [Suc j..<Suc k]"
    by blast
  have al': "attempt_loop ev cfg city rk kode [j..<n] (?S j s) = (Normal True, s')"
    unfolding up using body r al st by (simp del: attempt_start.simps)
  have w: "wrote (fst (?S j s)) ((Attempt kode j (?E j) # new1) @ new2) (fst s')"
    using wrote_trans[OF w1] w2 st by (simp del: attempt_start.simps)
  have a: "attempts_of kode ((Attempt kode j (?E j) # new1) @ new2) = map ?E [j..<Suc k]"
    using a2 at1 unfolding upk' by (simp only: attempts_of_append) simp
  from al' w a show ?case by blast
qed

text \<open>What the item's body does once the attempts have ended with \<open>success\<close>.\<close>

lemma process_item_after_attempts:
  assumes quiet: "uninterrupted ev"
    and fresh: "kode \<notin> processed_dps b"
    and known: "map_of md kode = Some data"
    and al: "attempt_loop ev cfg (City data) (RK data) kode [0..<MAX_RETRIES cfg]
               (emit (Processing kode) b, w) = (Normal success, s1)"
    and wr: "wrote (emit (Processing kode) b) new (fst s1)"
  shows "\<exists>b' w'. process_item ev cfg md kode (b, w) = (Continue, b', w')
           \<and> item_loop ev cfg md (kode # rest) (b, w) = item_loop ev cfg md rest (b', w')
           \<and> skipped b' = skipped b
           \<and> successful b' = (if success then successful b + 1 else successful b)
           \<and> failed b' = (if success then failed b else failed b + 1)
           \<and> processed_dps b' = (if success then insert kode (processed_dps b) else processed_dps b)
           \<and> attempts_of kode (new_events b b') = attempts_of kode new"
proof -
  obtain b1 w1 where s1: "s1 = (b1, w1)" by (cases s1)
  obtain x w2 where sl0: "sleep ev 1 w1 = (x, w2)" by (cases "sleep ev 1 w1")
  with unint_sleep[OF quiet] have sl: "sleep ev 1 w1 = (None, w2)" by (cases x) auto
  define b2 where "b2 = (if success
        then emit (Success kode) (b1\<lparr>processed_dps := insert kode (processed_dps b1),
                                       successful := successful b1 + 1\<rparr>)
        else emit (Failed kode) (b1\<lparr>failed := failed b1 + 1\<rparr>))"
  have pi: "process_item ev cfg md kode (b, w) = (Continue, b2, w2)"
    using fresh known al s1 sl by (simp add: process_item_def b2_def Let_def)
  have b1: "b1 = b\<lparr>logged := logged b @ Processing kode # new\<rparr>"
    using wr s1 by (simp add: wrote_def emit_def)
  have lg: "logged b2 = logged b @ Processing kode # new @ [if success then Success kode else Failed kode]"
    by (simp add: b2_def b1 emit_def)
  have ne: "attempts_of kode (new_events b b2) = attempts_of kode new"
    unfolding new_events_def lg by (simp del: attempts_of_simps add: attempts_of_def map_filter_def)
  have il: "item_loop ev cfg md (kode # rest) (b, w) = item_loop ev cfg md rest (b2, w2)"
    using pi by simp
  have f: "skipped b2 = skipped b"
    "successful b2 = (if success then successful b + 1 else successful b)"
    "failed b2 = (if success then failed b else failed b + 1)"
    "processed_dps b2 = (if success then insert kode (processed_dps b) else processed_dps b)"
    by (simp_all add: b2_def b1 emit_def)
  show ?thesis
    apply (rule exI[of _ b2], rule exI[of _ w2])
    apply (simp only: pi il ne f)
    done
qed



text \<open>
  The worlds of the examples count the calls of the engine: three for the item that
  fails, two for the one that succeeds at the second.
\<close>

lemma engine_calls_example:
  "snd (snd (process_item (example_env (\<lambda>k. Returns False)) example_config example_master
               ''DP001'' (initial_bot 0, 0))) = 3
   \<and> failed (fst (snd (process_item (example_env (\<lambda>k. Returns False)) example_config
               example_master ''DP001'' (initial_bot 0, 0)))) = 1
   \<and> successful (fst (snd (process_item (example_env (\<lambda>k. Returns False)) example_config
               example_master ''DP001'' (initial_bot 0, 0)))) = 0
   \<and> snd (snd (process_item (scripted_env (\<lambda>n. Returns (n = 1))) example_config example_master
               ''DP001'' (initial_bot 0, 0))) = 2
   \<and> successful (fst (snd (process_item (scripted_env (\<lambda>n. Returns (n = 1))) example_config
               example_master ''DP001'' (initial_bot 0, 0)))) = 1
   \<and> failed (fst (snd (process_item (scripted_env (\<lambda>n. Returns (n = 1))) example_config
               example_master ''DP001'' (initial_bot 0, 0)))) = 0
   \<and> ''DP001'' \<in> processed_dps (fst (snd (process_item (scripted_env (\<lambda>n. Returns (n = 1)))
               example_config example_master ''DP001'' (initial_bot 0, 0))))"
  by code_simp

section \<open>The invariants of the item loop\<close>

lemma uncounted_none:
  "uncounted e \<Longrightarrow> success_of e = None \<and> failure_of e = None \<and> skip_of e = None \<and> \<not> is_skip_processed e"
  by (cases e) simp_all

lemma map_filter_append: "List.map_filter f (xs @ ys) = List.map_filter f xs @ List.map_filter f ys"
  by (simp add: map_filter_def)

lemma map_filter_Cons:
  "List.map_filter f (x # xs) = (case f x of None \<Rightarrow> List.map_filter f xs | Some y \<Rightarrow> y # List.map_filter f xs)"
  by (simp add: map_filter_def split: option.splits)

lemma uncounted_map_filter:
  "list_all uncounted xs \<Longrightarrow>
     List.map_filter success_of xs = [] \<and> List.map_filter failure_of xs = []
     \<and> List.map_filter skip_of xs = [] \<and> \<not> list_ex is_skip_processed xs"
  by (induction xs) (auto simp: map_filter_Cons map_filter_def dest: uncounted_none)

lemma attempt_line_uncounted: "attempt_line kode e \<Longrightarrow> uncounted e"
  by (cases e) simp_all

lemma attempt_lines_uncounted: "list_all (attempt_line kode) xs \<Longrightarrow> list_all uncounted xs"
  by (induction xs) (auto dest: attempt_line_uncounted)

lemma item_except_effect:
  "item_except i (b1, w1) = (st, b', w') \<Longrightarrow>
     \<exists>post. list_all uncounted post \<and> b' = b1\<lparr>logged := logged b1 @ post\<rparr>"
proof (cases i)
  case KeyboardInterrupt
  assume "item_except i (b1, w1) = (st, b', w')"
  with KeyboardInterrupt have "b' = b1\<lparr>logged := logged b1 @ [InterruptedByUser]\<rparr>"
    by (simp add: item_except_def emit_def)
  then show ?thesis by (intro exI[of _ "[InterruptedByUser]"]) simp
next
  case SystemExit
  assume "item_except i (b1, w1) = (st, b', w')"
  with SystemExit have "b' = b1\<lparr>logged := logged b1 @ []\<rparr>"
    by (simp add: item_except_def)
  then show ?thesis by (intro exI[of _ "[]"]) simp
qed

lemma process_item_effect:
  assumes fresh: "kode \<notin> processed_dps b"
    and known: "map_of md kode = Some data"
    and pi: "process_item ev cfg md kode (b, w) = (st, b', w')"
  shows "item_effect kode b b'"
proof -
  let ?b0 = "emit (Processing kode) b"
  obtain r b1 w1 where
    al: "attempt_loop ev cfg (City data) (RK data) kode [0..<MAX_RETRIES cfg] (?b0, w) = (r, b1, w1)"
    by (metis prod_cases3)
  from attempt_loop_wrote[OF al] obtain new where
    wr: "wrote ?b0 new b1" and ln: "list_all (attempt_line kode) new"
    by auto
  have b1: "b1 = b\<lparr>logged := logged b @ Processing kode # new\<rparr>"
    using wr by (simp add: wrote_def emit_def)
  have un: "list_all uncounted (Processing kode # new)"
    using attempt_lines_uncounted[OF ln] by simp
  show ?thesis
  proof (cases r)
    case (Abort i)
    with pi fresh known al have "item_except i (b1, w1) = (st, b', w')"
      by (simp add: process_item_def)
    from item_except_effect[OF this] obtain post where
      "list_all uncounted post" "b' = b1\<lparr>logged := logged b1 @ post\<rparr>" by blast
    with un b1 show ?thesis
      unfolding item_effect_def
      by (intro exI[of _ "Processing kode # new"] exI[of _ post]) simp
  next
    case (Normal success)
    define b2 where "b2 = (if success
        then emit (Success kode) (b1\<lparr>processed_dps := insert kode (processed_dps b1),
                                       successful := successful b1 + 1\<rparr>)
        else emit (Failed kode) (b1\<lparr>failed := failed b1 + 1\<rparr>))"
    obtain x w2 where sl: "sleep ev 1 w1 = (x, w2)" by (cases "sleep ev 1 w1")
    have "\<exists>post. list_all uncounted post \<and> b' = b2\<lparr>logged := logged b2 @ post\<rparr>"
    proof (cases x)
      case None
      with pi fresh known al Normal sl have "b' = b2"
        by (simp add: process_item_def b2_def Let_def)
      then show ?thesis by (intro exI[of _ "[]"]) simp
    next
      case (Some i)
      with pi fresh known al Normal sl have "item_except i (b2, w2) = (st, b', w')"
        by (simp add: process_item_def b2_def Let_def)
      from item_except_effect[OF this] show ?thesis .
    qed
    then obtain post where po: "list_all uncounted post" and b': "b' = b2\<lparr>logged := logged b2 @ post\<rparr>"
      by blast
    show ?thesis
    proof (cases success)
      case True
      then have "b' = b\<lparr>processed_dps := insert kode (processed_dps b),
                     successful := successful b + 1,
                     logged := logged b @ (Processing kode # new) @ Success kode # post\<rparr>"
        by (simp add: b' b2_def b1 emit_def)
      with un po show ?thesis
        unfolding item_effect_def
        by (intro exI[of _ "Processing kode # new"] exI[of _ post]) simp
    next
      case False
      then have "b' = b\<lparr>failed := failed b + 1,
                     logged := logged b @ (Processing kode # new) @ Failed kode # post\<rparr>"
        by (simp add: b' b2_def b1 emit_def)
      with un po show ?thesis
        unfolding item_effect_def
        by (intro exI[of _ "Processing kode # new"] exI[of _ post]) simp
    qed
  qed
qed

lemma mf_uncounted:
  assumes "list_all uncounted pre" "list_all uncounted post"
  shows "List.map_filter success_of (xs @ pre @ post) = List.map_filter success_of xs"
    and "List.map_filter failure_of (xs @ pre @ post) = List.map_filter failure_of xs"
    and "List.map_filter skip_of (xs @ pre @ post) = List.map_filter skip_of xs"
    and "List.map_filter success_of (xs @ pre @ Success k # post) = List.map_filter success_of xs @ [k]"
    and "List.map_filter failure_of (xs @ pre @ Success k # post) = List.map_filter failure_of xs"
    and "List.map_filter skip_of (xs @ pre @ Success k # post) = List.map_filter skip_of xs"
    and "List.map_filter success_of (xs @ pre @ Failed k # post) = List.map_filter success_of xs"
    and "List.map_filter failure_of (xs @ pre @ Failed k # post) = List.map_filter failure_of xs @ [k]"
    and "List.map_filter skip_of (xs @ pre @ Failed k # post) = List.map_filter skip_of xs"
  using uncounted_map_filter[OF assms(1)] uncounted_map_filter[OF assms(2)]
  by (simp_all add: map_filter_append map_filter_Cons)

lemma ex_uncounted:
  assumes "list_all uncounted pre" "list_all uncounted post"
  shows "list_ex is_skip_processed (xs @ pre @ post) = list_ex is_skip_processed xs"
    and "list_ex is_skip_processed (xs @ pre @ Success k # post) = list_ex is_skip_processed xs"
    and "list_ex is_skip_processed (xs @ pre @ Failed k # post) = list_ex is_skip_processed xs"
  using uncounted_map_filter[OF assms(1)] uncounted_map_filter[OF assms(2)]
  by (simp_all add: list_ex_append)

lemma loop_inv_seen_mono: "loop_inv md seen b \<Longrightarrow> loop_inv md (seen @ [kode]) b"
  by (auto simp: loop_inv_def)

lemma item_effect_inv:
  assumes inv: "loop_inv md seen b" and new: "kode \<notin> set seen"
    and known: "map_of md kode = Some data" and eff: "item_effect kode b b'"
  shows "loop_inv md (seen @ [kode]) b' \<and> processed_dps b \<subseteq> processed_dps b'"
proof -
  from eff obtain pre post where
    pre: "list_all uncounted pre" and post: "list_all uncounted post" and
    d: "b' = b\<lparr>logged := logged b @ pre @ post\<rparr>
           \<or> b' = b\<lparr>processed_dps := insert kode (processed_dps b),
                     successful := successful b + 1,
                     logged := logged b @ pre @ Success kode # post\<rparr>
           \<or> b' = b\<lparr>failed := failed b + 1, logged := logged b @ pre @ Failed kode # post\<rparr>"
    unfolding item_effect_def by blast
  note mf = mf_uncounted[OF pre post]
  have nx: "\<not> list_ex is_skip_processed pre" "\<not> list_ex is_skip_processed post"
    using uncounted_map_filter[OF pre] uncounted_map_filter[OF post] by simp_all
  have k: "kode \<notin> set (counted (logged b))" using inv new by (auto simp: loop_inv_def)
  have km: "kode \<in> fst ` set md" using known by (metis map_of_SomeD fst_conv image_eqI)
  from d show ?thesis
  proof (elim disjE)
    assume "b' = b\<lparr>logged := logged b @ pre @ post\<rparr>"
    then show ?thesis
      using inv nx by (auto simp: loop_inv_def tallied_def counted_def mf)
  next
    assume "b' = b\<lparr>processed_dps := insert kode (processed_dps b),
                     successful := successful b + 1,
                     logged := logged b @ pre @ Success kode # post\<rparr>"
    then show ?thesis
      using inv k km nx by (auto simp: loop_inv_def tallied_def counted_def mf)
  next
    assume "b' = b\<lparr>failed := failed b + 1, logged := logged b @ pre @ Failed kode # post\<rparr>"
    then show ?thesis
      using inv k nx by (auto simp: loop_inv_def tallied_def counted_def mf)
  qed
qed

lemma process_item_inv:
  assumes inv: "loop_inv md seen b" and new: "kode \<notin> set seen"
    and pi: "process_item ev cfg md kode (b, w) = (st, b', w')"
  shows "loop_inv md (seen @ [kode]) b' \<and> processed_dps b \<subseteq> processed_dps b'"
proof -
  have fresh: "kode \<notin> processed_dps b" using inv new by (auto simp: loop_inv_def)
  show ?thesis
  proof (cases "map_of md kode")
    case None
    with pi fresh have b': "b' = b\<lparr>skipped := skipped b + 1, logged := logged b @ [SkipNotInMaster kode]\<rparr>"
      by (simp add: process_item_def emit_def)
    have k: "kode \<notin> set (counted (logged b))" using inv new by (auto simp: loop_inv_def)
    show ?thesis
      using inv k unfolding b'
      by (auto simp: loop_inv_def tallied_def counted_def map_filter_append map_filter_simps)
  next
    case (Some data)
    from process_item_effect[OF fresh Some pi] item_effect_inv[OF inv new Some]
    show ?thesis by blast
  qed
qed

lemma loop_states_inv:
  "loop_inv md seen b \<Longrightarrow> distinct (seen @ codes) \<Longrightarrow>
   \<forall>b' \<in> set (loop_states ev cfg md codes (b, w)).
      (\<exists>seen'. loop_inv md seen' b' \<and> set seen' \<subseteq> set (seen @ codes))
      \<and> processed_dps b \<subseteq> processed_dps b'"
proof (induction codes arbitrary: seen b w)
  case Nil
  then show ?case by auto
next
  case (Cons kode rest)
  obtain st b1 w1 where pi: "process_item ev cfg md kode (b, w) = (st, b1, w1)"
    by (metis prod_cases3)
  have new: "kode \<notin> set seen" using Cons.prems(2) by auto
  from process_item_inv[OF Cons.prems(1) new pi]
  have i1: "loop_inv md (seen @ [kode]) b1" and m1: "processed_dps b \<subseteq> processed_dps b1" by auto
  have d1: "distinct ((seen @ [kode]) @ rest)" using Cons.prems(2) by auto
  note ih = Cons.IH[OF i1 d1, of w1]
  have here: "(\<exists>seen'. loop_inv md seen' b \<and> set seen' \<subseteq> set (seen @ kode # rest))"
    using Cons.prems(1) by (intro exI[of _ seen]) auto
  have one: "(\<exists>seen'. loop_inv md seen' b1 \<and> set seen' \<subseteq> set (seen @ kode # rest))"
    using i1 by (intro exI[of _ "seen @ [kode]"]) auto
  show ?case
  proof (cases st)
    case Continue
    then have ls: "loop_states ev cfg md (kode # rest) (b, w) = b # loop_states ev cfg md rest (b1, w1)"
      using pi by simp
    show ?thesis
      unfolding ls using here ih m1 by (auto simp del: loop_states.simps)
  next
    case Break
    then have ls: "loop_states ev cfg md (kode # rest) (b, w) = [b, b1]"
      using pi by simp
    show ?thesis unfolding ls using here one m1 by simp
  next
    case Exit
    then have ls: "loop_states ev cfg md (kode # rest) (b, w) = [b, b1]"
      using pi by simp
    show ?thesis unfolding ls using here one m1 by simp
  qed
qed

lemma loop_states_sorted:
  "loop_inv md seen b \<Longrightarrow> distinct (seen @ codes) \<Longrightarrow>
   sorted_wrt (\<lambda>x y. processed_dps x \<subseteq> processed_dps y) (loop_states ev cfg md codes (b, w))"
proof (induction codes arbitrary: seen b w)
  case Nil
  then show ?case by simp
next
  case (Cons kode rest)
  obtain st b1 w1 where pi: "process_item ev cfg md kode (b, w) = (st, b1, w1)"
    by (metis prod_cases3)
  have new: "kode \<notin> set seen" using Cons.prems(2) by auto
  from process_item_inv[OF Cons.prems(1) new pi]
  have i1: "loop_inv md (seen @ [kode]) b1" and m1: "processed_dps b \<subseteq> processed_dps b1" by auto
  have d1: "distinct ((seen @ [kode]) @ rest)" using Cons.prems(2) by auto
  note ih = Cons.IH[OF i1 d1, of w1]
  note mono = loop_states_inv[OF i1 d1, of ev cfg w1]
  show ?case
  proof (cases st)
    case Continue
    then have ls: "loop_states ev cfg md (kode # rest) (b, w) = b # loop_states ev cfg md rest (b1, w1)"
      using pi by simp
    show ?thesis
      unfolding ls using ih mono m1 by (auto simp del: loop_states.simps)
  next
    case Break
    then have ls: "loop_states ev cfg md (kode # rest) (b, w) = [b, b1]"
      using pi by simp
    show ?thesis unfolding ls using m1 by simp
  next
    case Exit
    then have ls: "loop_states ev cfg md (kode # rest) (b, w) = [b, b1]"
      using pi by simp
    show ?thesis unfolding ls using m1 by simp
  qed
qed

lemma loop_inv_initial: "loop_inv md [] (initial_bot t)"
  by (simp add: loop_inv_def tallied_def counted_def initial_bot_def map_filter_simps)

lemma read_daily_input_distinct: "distinct (read_daily_input ls)"
  by (simp add: read_daily_input_def daily_loop_eq keep_first_distinct)

lemma loop_states_last:
  "loop_states ev cfg md codes s \<noteq> []
   \<and> last (loop_states ev cfg md codes s) = fst (snd (item_loop ev cfg md codes s))"
proof (induction codes arbitrary: s)
  case Nil
  show ?case by simp
next
  case (Cons kode rest)
  obtain st s1 where pi: "process_item ev cfg md kode s = (st, s1)"
    by (cases "process_item ev cfg md kode s")
  show ?case
    using Cons.IH[of s1] pi by (cases st) simp_all
qed

text \<open>
  C4. In a run over the loaded daily list, every state the item loop passes through
  between items satisfies the invariants: each counter is the number of codes counted
  under it, no code is counted twice (so none under two counters), and the processed set
  lies within the keys of the lookup table and the codes of the daily list. Along the
  loop the processed set only grows, and the last of these states is the one the loop
  ends in.
\<close>

theorem run_controller_invariants:
  "(\<forall>b \<in> set (loop_states ev cfg md (read_daily_input file_lines) (initial_bot t, w)).
       controller_inv md (read_daily_input file_lines) b)
   \<and> sorted_wrt (\<lambda>x y. processed_dps x \<subseteq> processed_dps y)
        (loop_states ev cfg md (read_daily_input file_lines) (initial_bot t, w))
   \<and> last (loop_states ev cfg md (read_daily_input file_lines) (initial_bot t, w))
       = fst (snd (item_loop ev cfg md (read_daily_input file_lines) (initial_bot t, w)))"
proof -
  let ?codes = "read_daily_input file_lines"
  have d: "distinct ([] @ ?codes)" by (simp add: read_daily_input_distinct)
  have i: "loop_inv md [] (initial_bot t)" by (rule loop_inv_initial)
  have a: "\<forall>b \<in> set (loop_states ev cfg md ?codes (initial_bot t, w)). controller_inv md ?codes b"
  proof
    fix b assume "b \<in> set (loop_states ev cfg md ?codes (initial_bot t, w))"
    with loop_states_inv[OF i d, of ev cfg w] obtain seen' where
      "loop_inv md seen' b" "set seen' \<subseteq> set ?codes" by auto
    then show "controller_inv md ?codes b"
      by (auto simp: loop_inv_def controller_inv_def)
  qed
  show ?thesis
    using a loop_states_sorted[OF i d, of ev cfg w] loop_states_last[of ev cfg md ?codes "(initial_bot t, w)"]
    by blast
qed

text \<open>
  C5, as amended. In the item loop a code already in the processed set is skipped: the
  \<open>skipped\<close> counter grows by one, the skip is logged, the world is untouched and no
  call of the engine is recorded. But the loader has removed every duplicate line, so in
  a run over a loaded daily list that branch is never reached: no state of the loop has
  logged such a skip. The lines \<open>DP001, DP003, DP001\<close> load as \<open>DP001, DP003\<close>.
\<close>

theorem processed_code_skipped_never_reached:
  "(kode \<in> processed_dps b \<longrightarrow>
      process_item ev cfg md kode (b, w)
        = (Continue, emit (SkipProcessed kode) (b\<lparr>skipped := skipped b + 1\<rparr>), w)
      \<and> attempts_of kode
           (new_events b (emit (SkipProcessed kode) (b\<lparr>skipped := skipped b + 1\<rparr>))) = [])
   \<and> (\<forall>b' \<in> set (loop_states ev cfg md (read_daily_input file_lines) (initial_bot t, w)).
        \<not> list_ex is_skip_processed (logged b'))
   \<and> read_daily_input [''DP001'', ''DP003'', ''DP001''] = [''DP001'', ''DP003'']"
proof -
  let ?codes = "read_daily_input file_lines"
  have d: "distinct ([] @ ?codes)" by (simp add: read_daily_input_distinct)
  have i: "loop_inv md [] (initial_bot t)" by (rule loop_inv_initial)
  have a: "\<forall>b' \<in> set (loop_states ev cfg md ?codes (initial_bot t, w)).
        \<not> list_ex is_skip_processed (logged b')"
  proof
    fix b' assume "b' \<in> set (loop_states ev cfg md ?codes (initial_bot t, w))"
    with loop_states_inv[OF i d, of ev cfg w] obtain seen' where
      "loop_inv md seen' b'" by auto
    then show "\<not> list_ex is_skip_processed (logged b')"
      by (simp add: loop_inv_def)
  qed
  have x: "read_daily_input [''DP001'', ''DP003'', ''DP001''] = [''DP001'', ''DP003'']"
    by (simp add: read_daily_input_def strip_def is_space_def startswith_def)
  have s: "kode \<in> processed_dps b \<longrightarrow>
      process_item ev cfg md kode (b, w)
        = (Continue, emit (SkipProcessed kode) (b\<lparr>skipped := skipped b + 1\<rparr>), w)
      \<and> attempts_of kode
           (new_events b (emit (SkipProcessed kode) (b\<lparr>skipped := skipped b + 1\<rparr>))) = []"
    by (simp add: process_item_def new_events_def emit_def)
  show ?thesis using s a x by blast
qed

section \<open>Runs, interrupts and the final report\<close>

theorem run_controller_invariants_witness:
  "controller_inv example_master (read_daily_input [''DP001'', ''DP003'', ''DP001''])
     (last (loop_states (example_env (\<lambda>k. Returns True)) example_config example_master
              (read_daily_input [''DP001'', ''DP003'', ''DP001'']) (initial_bot 0, 0)))"
proof -
  note t = run_controller_invariants[of "example_env (\<lambda>k. Returns True)" example_config
      example_master "[''DP001'', ''DP003'', ''DP001'']" 0 0]
  have m: "last (loop_states (example_env (\<lambda>k. Returns True)) example_config example_master
              (read_daily_input [''DP001'', ''DP003'', ''DP001'']) (initial_bot 0, 0))
        \<in> set (loop_states (example_env (\<lambda>k. Returns True)) example_config example_master
              (read_daily_input [''DP001'', ''DP003'', ''DP001'']) (initial_bot 0, 0))"
    using loop_states_last by (intro last_in_set) blast
  show ?thesis
    by (rule bspec[OF t[THEN conjunct1] m])
qed

theorem processed_code_skipped_never_reached_witness:
  "''DP001'' \<in> processed_dps ((initial_bot 0)\<lparr>processed_dps := {''DP001''}\<rparr>)
   \<and> (process_item (example_env (\<lambda>k. Returns True)) example_config example_master ''DP001''
        ((initial_bot 0)\<lparr>processed_dps := {''DP001''}\<rparr>, 0)
        = (Continue, emit (SkipProcessed ''DP001'')
             ((initial_bot 0)\<lparr>processed_dps := {''DP001''}\<rparr>
                \<lparr>skipped := skipped ((initial_bot 0)\<lparr>processed_dps := {''DP001''}\<rparr>) + 1\<rparr>), 0)
      \<and> attempts_of ''DP001''
           (new_events ((initial_bot 0)\<lparr>processed_dps := {''DP001''}\<rparr>)
              (emit (SkipProcessed ''DP001'')
                 ((initial_bot 0)\<lparr>processed_dps := {''DP001''}\<rparr>
                    \<lparr>skipped := skipped ((initial_bot 0)\<lparr>processed_dps := {''DP001''}\<rparr>) + 1\<rparr>))) = [])"
proof -
  have h: "''DP001'' \<in> processed_dps ((initial_bot 0)\<lparr>processed_dps := {''DP001''}\<rparr>)"
    by simp
  note t = processed_code_skipped_never_reached[of "''DP001''"
      "(initial_bot 0)\<lparr>processed_dps := {''DP001''}\<rparr>"
      "example_env (\<lambda>k. Returns True)" example_config example_master 0 "[]" 0]
  show ?thesis
    by (rule conjI[OF h mp[OF t[THEN conjunct1] h]])
qed

text \<open>
  C5 as stated fails: with the lookup table of the scenario, an engine that succeeds and
  the input lines \<open>DP001, DP003, DP001\<close>, the run counts one skip only (\<open>DP003\<close>,
  absent from the table), logs no skip of \<open>DP001\<close> and reports two items in total.
\<close>

theorem duplicate_line_not_counted_as_skip:
  "(case run_automation (example_env (\<lambda>k. Returns True)) example_config (Some example_master)
          (read_daily_input [''DP001'', ''DP003'', ''DP001'']) (initial_bot 0, 0) of
      (r, b, w) \<Rightarrow> r = Normal True \<and> successful b = 1 \<and> failed b = 0 \<and> skipped b = 1
         \<and> SkipProcessed ''DP001'' \<notin> set (logged b)
         \<and> logged b \<noteq> [] \<and> (case last (logged b) of FinalReport rep \<Rightarrow> r_total rep = 2 | _ \<Rightarrow> False))"
  by code_simp

text \<open>
  C9. With two codes, the first created and the signal handler's \<open>SystemExit\<close> raised
  in the engine's call for the second, \<open>run_automation\<close> ends by that exception: the
  interrupted item is counted nowhere and the driver is closed, but no final report is
  logged. The same run with \<open>KeyboardInterrupt\<close> in place of \<open>SystemExit\<close> leaves
  the loop by \<open>break\<close>, logs the report and returns true.
\<close>

theorem signal_exit_skips_final_report:
  "(case run_automation
          (example_env (\<lambda>k. if k = ''DP002'' then Raises (Interrupt signal_handler) else Returns True))
          example_config (Some example_master) [''DP001'', ''DP002''] (initial_bot 0, 0) of
      (r, b, w) \<Rightarrow> r = Abort SystemExit \<and> \<not> list_ex is_report (logged b)
         \<and> successful b = 1 \<and> failed b = 0 \<and> skipped b = 0 \<and> \<not> driver_open b)
   \<and> (case run_automation
          (example_env (\<lambda>k. if k = ''DP002'' then Raises (Interrupt KeyboardInterrupt) else Returns True))
          example_config (Some example_master) [''DP001'', ''DP002''] (initial_bot 0, 0) of
      (r, b, w) \<Rightarrow> r = Normal True \<and> list_ex is_report (logged b)
         \<and> successful b = 1 \<and> failed b = 0 \<and> skipped b = 0 \<and> \<not> driver_open b)"
  by code_simp

lemma item_loop_all_unknown:
  "\<forall>k \<in> set codes. map_of md k = None \<Longrightarrow> processed_dps b = {} \<Longrightarrow>
   item_loop ev cfg md codes (b, w)
     = (Continue, b\<lparr>skipped := skipped b + int (length codes),
                    logged := logged b @ map SkipNotInMaster codes\<rparr>, w)"
proof (induction codes arbitrary: b)
  case Nil
  then show ?case by simp
next
  case (Cons kode rest)
  let ?b1 = "emit (SkipNotInMaster kode) (b\<lparr>skipped := skipped b + 1\<rparr>)"
  have pi: "process_item ev cfg md kode (b, w) = (Continue, ?b1, w)"
    using Cons.prems by (simp add: process_item_def)
  have p1: "processed_dps ?b1 = {}" using Cons.prems(2) by (simp add: emit_def)
  have r: "\<forall>k \<in> set rest. map_of md k = None" using Cons.prems(1) by simp
  show ?case
    using Cons.IH[OF r p1] pi by (simp add: emit_def)
qed

text \<open>
  C10. The success rate is absent exactly when the total less the skipped items is not
  positive, and otherwise is the successful items divided by that difference, times 100;
  it is the rate the final report carries. A run in which no code is in the lookup table
  skips every item, and its report carries no success rate.
\<close>

theorem success_rate_excludes_skipped:
  "(success_rate b total_items = None) = (total_items - skipped b \<le> 0)
   \<and> (0 < total_items - skipped b \<longrightarrow>
        success_rate b total_items = Some (of_int (successful b) / of_int (total_items - skipped b) * 100))
   \<and> (start_time b = Some t0 \<longrightarrow>
        (\<exists>r. logged (generate_final_report b total_items t) = logged b @ [FinalReport r]
            \<and> r_success_rate r = success_rate b total_items))
   \<and> (md \<noteq> [] \<and> codes \<noteq> [] \<and> (\<forall>k \<in> set codes. map_of md k = None)
        \<and> login ev w = (Returns True, w1) \<and> navigate ev w1 = (Returns True, w2) \<longrightarrow>
        (\<exists>b' r. run_automation ev cfg (Some md) codes (initial_bot t0, w) = (Normal True, b', w2)
            \<and> logged b' = map SkipNotInMaster codes @ [FinalReport r]
            \<and> r_skipped r = int (length codes) \<and> r_success_rate r = None))"
proof -
  have a: "(success_rate b total_items = None) = (total_items - skipped b \<le> 0)"
    by (simp add: success_rate_def Let_def)
  have c: "0 < total_items - skipped b \<longrightarrow>
        success_rate b total_items = Some (of_int (successful b) / of_int (total_items - skipped b) * 100)"
    by (simp add: success_rate_def Let_def)
  have d: "start_time b = Some t0 \<longrightarrow>
        (\<exists>r. logged (generate_final_report b total_items t) = logged b @ [FinalReport r]
            \<and> r_success_rate r = success_rate b total_items)"
    by (simp add: generate_final_report_def Let_def emit_def success_rate_def)
  have e: "md \<noteq> [] \<and> codes \<noteq> [] \<and> (\<forall>k \<in> set codes. map_of md k = None)
        \<and> login ev w = (Returns True, w1) \<and> navigate ev w1 = (Returns True, w2) \<longrightarrow>
        (\<exists>b' r. run_automation ev cfg (Some md) codes (initial_bot t0, w) = (Normal True, b', w2)
            \<and> logged b' = map SkipNotInMaster codes @ [FinalReport r]
            \<and> r_skipped r = int (length codes) \<and> r_success_rate r = None)"
  proof (intro impI, elim conjE)
    assume md: "md \<noteq> []" and cs: "codes \<noteq> []" and un: "\<forall>k \<in> set codes. map_of md k = None"
      and lg: "login ev w = (Returns True, w1)" and nv: "navigate ev w1 = (Returns True, w2)"
    let ?b0 = "(initial_bot t0)\<lparr>processed_dps := {}\<rparr>"
    let ?b3 = "?b0\<lparr>skipped := skipped ?b0 + int (length codes),
                    logged := logged ?b0 @ map SkipNotInMaster codes\<rparr>"
    have il: "item_loop ev cfg md codes (?b0, w2) = (Continue, ?b3, w2)"
      by (rule item_loop_all_unknown[OF un]) simp
    have rb: "run_body ev cfg (Some md) codes (initial_bot t0, w)
        = (Normal True, generate_final_report ?b3 (int (length codes)) (now ev w2), w2)"
      using md cs lg nv il by (simp add: run_body_def)
    show "\<exists>b' r. run_automation ev cfg (Some md) codes (initial_bot t0, w) = (Normal True, b', w2)
            \<and> logged b' = map SkipNotInMaster codes @ [FinalReport r]
            \<and> r_skipped r = int (length codes) \<and> r_success_rate r = None"
      unfolding run_automation_def rb
      by (simp add: generate_final_report_def cleanup_def Let_def emit_def success_rate_def
          initial_bot_def)
  qed
  show ?thesis using a c d e by blast
qed

theorem success_rate_excludes_skipped_witness:
  "(0::int) < 4 - skipped ((initial_bot 0)\<lparr>successful := 1, skipped := 2\<rparr>)
   \<and> success_rate ((initial_bot 0)\<lparr>successful := 1, skipped := 2\<rparr>) 4
       = Some (of_int (successful ((initial_bot 0)\<lparr>successful := 1, skipped := 2\<rparr>))
               / of_int (4 - skipped ((initial_bot 0)\<lparr>successful := 1, skipped := 2\<rparr>)) * 100)"
proof -
  have h: "(0::int) < 4 - skipped ((initial_bot 0)\<lparr>successful := 1, skipped := 2\<rparr>)"
    by simp
  note t = success_rate_excludes_skipped[of "(initial_bot 0)\<lparr>successful := 1, skipped := 2\<rparr>" 4]
  show ?thesis
    by (rule conjI[OF h mp[OF t[THEN conjunct2, THEN conjunct1] h]])
qed

section \<open>The element locator\<close>

lemma all_less_Suc: "(\<forall>i < Suc n. P i) = (P 0 \<and> (\<forall>i < n. P (Suc i)))"
  by (auto simp: less_Suc_eq_0_disj)

lemma ex_less_Suc: "(\<exists>i < Suc n. P i) = (P 0 \<or> (\<exists>i < n. P (Suc i)))"
  by (auto simp: less_Suc_eq_0_disj)

lemma candidate_0: "candidate br (s # rest) 0 = dom_at br (tick br) (by_of s, s)"
  by (simp add: candidate_def)

lemma candidate_Suc:
  "candidate br (s # rest) (Suc i) = candidate (br\<lparr>tick := tick br + 1\<rparr>) rest i"
  by (simp add: candidate_def)

lemma wait_for_element_step:
  "wait_for_element (s # rest) clickable br =
     (if usable (dom_at br (tick br) (by_of s, s))
      then (dom_at br (tick br) (by_of s, s), br\<lparr>tick := tick br + 1\<rparr>)
      else wait_for_element rest clickable (br\<lparr>tick := tick br + 1\<rparr>))"
  by (cases clickable)
    (auto simp: look_def usable_def element_to_be_clickable_def presence_of_element_located_def
      split: option.splits)

lemma wait_for_element_frame:
  "wait_for_element selectors clickable br = (r, br') \<Longrightarrow>
     dom_at br' = dom_at br \<and> fault_at br' = fault_at br \<and> actions br' = actions br
     \<and> tick br \<le> tick br'"
proof (induction selectors arbitrary: br)
  case Nil
  then show ?case by simp
next
  case (Cons s rest)
  let ?br1 = "br\<lparr>tick := tick br + 1\<rparr>"
  show ?case
  proof (cases "usable (dom_at br (tick br) (by_of s, s))")
    case True
    with Cons.prems have "br' = ?br1"
      by (simp add: wait_for_element_step del: wait_for_element.simps)
    then show ?thesis by simp
  next
    case False
    with Cons.prems have "wait_for_element rest clickable ?br1 = (r, br')"
      by (simp add: wait_for_element_step del: wait_for_element.simps)
    from Cons.IH[OF this] show ?thesis by simp
  qed
qed

lemma wait_for_element_result:
  "wait_for_element selectors clickable br = (r, br') \<Longrightarrow>
     (r = None \<longrightarrow>
        (\<forall>i < length selectors. \<not> usable (candidate br selectors i))
        \<and> tick br' = tick br + length selectors)
     \<and> (\<forall>e. r = Some e \<longrightarrow>
          (\<exists>i < length selectors. candidate br selectors i = Some e
              \<and> el_displayed e \<and> el_enabled e
              \<and> (\<forall>j < i. \<not> usable (candidate br selectors j))
              \<and> tick br' = tick br + i + 1))"
proof (induction selectors arbitrary: br)
  case Nil
  then show ?case by simp
next
  case (Cons s rest)
  let ?br1 = "br\<lparr>tick := tick br + 1\<rparr>"
  let ?found = "dom_at br (tick br) (by_of s, s)"
  show ?case
  proof (cases "usable ?found")
    case True
    then obtain e where e: "?found = Some e" "el_displayed e" "el_enabled e"
      by (auto simp: usable_def split: option.splits)
    with Cons.prems True have "r = Some e" "br' = ?br1"
      by (auto simp: wait_for_element_step simp del: wait_for_element.simps)
    with e show ?thesis
      by (auto simp: ex_less_Suc candidate_0)
  next
    case False
    with Cons.prems have rec: "wait_for_element rest clickable ?br1 = (r, br')"
      by (simp add: wait_for_element_step del: wait_for_element.simps)
    note ih = Cons.IH[OF rec]
    have n: "r = None \<longrightarrow>
        (\<forall>i < length (s # rest). \<not> usable (candidate br (s # rest) i))
        \<and> tick br' = tick br + length (s # rest)"
      using ih False by (simp add: all_less_Suc candidate_0 candidate_Suc)
    have sm: "\<forall>e. r = Some e \<longrightarrow>
          (\<exists>i < length (s # rest). candidate br (s # rest) i = Some e
              \<and> el_displayed e \<and> el_enabled e
              \<and> (\<forall>j < i. \<not> usable (candidate br (s # rest) j))
              \<and> tick br' = tick br + i + 1)"
    proof (intro allI impI)
      fix e assume "r = Some e"
      with ih obtain i where i: "i < length rest" "candidate ?br1 rest i = Some e"
        "el_displayed e" "el_enabled e" "\<forall>j < i. \<not> usable (candidate ?br1 rest j)"
        "tick br' = tick ?br1 + i + 1" by blast
      have "\<forall>j < Suc i. \<not> usable (candidate br (s # rest) j)"
        using i(5) False by (simp add: all_less_Suc candidate_0 candidate_Suc)
      with i show "\<exists>i < length (s # rest). candidate br (s # rest) i = Some e
              \<and> el_displayed e \<and> el_enabled e
              \<and> (\<forall>j < i. \<not> usable (candidate br (s # rest) j))
              \<and> tick br' = tick br + i + 1"
        by (intro exI[of _ "Suc i"]) (simp add: candidate_Suc)
    qed
    from n sm show ?thesis by blast
  qed
qed

lemma wait_for_element_flag: "wait_for_element selectors True br = wait_for_element selectors False br"
proof (induction selectors arbitrary: br)
  case Nil
  show ?case by simp
next
  case (Cons s rest)
  show ?case
    by (simp add: wait_for_element_step Cons.IH del: wait_for_element.simps)
qed

lemma find_element_with_fallback_result:
  "find_element_with_fallback selectors br = (r, br') \<Longrightarrow>
     (r = None \<longrightarrow> (\<forall>i < length selectors. candidate br selectors i = None))
     \<and> (\<forall>e. r = Some e \<longrightarrow>
          (\<exists>i < length selectors. candidate br selectors i = Some e
              \<and> (\<forall>j < i. candidate br selectors j = None)))"
proof (induction selectors arbitrary: br)
  case Nil
  then show ?case by simp
next
  case (Cons s rest)
  let ?br1 = "br\<lparr>tick := tick br + 1\<rparr>"
  let ?found = "dom_at br (tick br) (by_of s, s)"
  show ?case
  proof (cases ?found)
    case (Some e)
    with Cons.prems have "r = Some e"
      by (auto simp: look_def presence_of_element_located_def)
    with Some show ?thesis by (auto simp: ex_less_Suc candidate_0)
  next
    case None
    with Cons.prems have rec: "find_element_with_fallback rest ?br1 = (r, br')"
      by (auto simp: look_def presence_of_element_located_def)
    note ih = Cons.IH[OF rec]
    have n: "r = None \<longrightarrow> (\<forall>i < length (s # rest). candidate br (s # rest) i = None)"
      using ih None by (simp add: all_less_Suc candidate_0 candidate_Suc)
    have sm: "\<forall>e. r = Some e \<longrightarrow>
          (\<exists>i < length (s # rest). candidate br (s # rest) i = Some e
              \<and> (\<forall>j < i. candidate br (s # rest) j = None))"
    proof (intro allI impI)
      fix e assume "r = Some e"
      with ih obtain i where i: "i < length rest" "candidate ?br1 rest i = Some e"
        "\<forall>j < i. candidate ?br1 rest j = None" by blast
      have "\<forall>j < Suc i. candidate br (s # rest) j = None"
        using i(3) None by (simp add: all_less_Suc candidate_0 candidate_Suc)
      with i show "\<exists>i < length (s # rest). candidate br (s # rest) i = Some e
              \<and> (\<forall>j < i. candidate br (s # rest) j = None)"
        by (intro exI[of _ "Suc i"]) (simp add: candidate_Suc)
    qed
    from n sm show ?thesis by blast
  qed
qed

text \<open>
  C8, as amended. \<open>wait_for_element\<close> tries the candidates in the order given, each
  at its own tick, and returns the element of the first candidate that is present,
  displayed and enabled, whether clickability is required or not: the check of
  \<open>is_displayed\<close> and \<open>is_enabled\<close> follows both waits, so on the page a wait ends
  with the flag changes nothing. When no candidate is so, it returns \<open>None\<close>; it
  raises nothing. \<open>find_element_with_fallback\<close>, which has no flag, returns the first
  candidate present.
\<close>

theorem locator_first_usable_candidate:
  "(wait_for_element selectors clickable br = (r, br') \<longrightarrow>
      (r = None \<longrightarrow> (\<forall>i < length selectors. \<not> usable (candidate br selectors i)))
      \<and> (\<forall>e. r = Some e \<longrightarrow>
           (\<exists>i < length selectors. candidate br selectors i = Some e
               \<and> el_displayed e \<and> el_enabled e
               \<and> (\<forall>j < i. \<not> usable (candidate br selectors j)))))
   \<and> wait_for_element selectors True br = wait_for_element selectors False br
   \<and> (find_element_with_fallback selectors br = (r, br') \<longrightarrow>
      (r = None \<longrightarrow> (\<forall>i < length selectors. candidate br selectors i = None))
      \<and> (\<forall>e. r = Some e \<longrightarrow>
           (\<exists>i < length selectors. candidate br selectors i = Some e
               \<and> (\<forall>j < i. candidate br selectors j = None))))"
  using wait_for_element_result[of selectors clickable br r br']
    wait_for_element_flag[of selectors br]
    find_element_with_fallback_result[of selectors br r br']
  by blast

text \<open>
  C8 as stated fails: with clickability not required, a first candidate that is present
  but hidden is passed over for the second; alone, it gives \<open>None\<close>.
\<close>

theorem hidden_candidate_passed_over:
  "satisfies False
     (candidate (example_browser [((By_CSS_SELECTOR, ''#a''), example_element ''a'' False),
                                  ((By_CSS_SELECTOR, ''#b''), example_element ''b'' True)])
        [''#a'', ''#b''] 0)
   \<and> fst (wait_for_element [''#a'', ''#b''] False
        (example_browser [((By_CSS_SELECTOR, ''#a''), example_element ''a'' False),
                          ((By_CSS_SELECTOR, ''#b''), example_element ''b'' True)]))
      = Some (example_element ''b'' True)
   \<and> fst (wait_for_element [''#a''] False
        (example_browser [((By_CSS_SELECTOR, ''#a''), example_element ''a'' False),
                          ((By_CSS_SELECTOR, ''#b''), example_element ''b'' True)]))
      = None"
  by code_simp

theorem locator_first_usable_candidate_witness:
  "wait_for_element [''#a'', ''#b''] False
        (example_browser [((By_CSS_SELECTOR, ''#a''), example_element ''a'' False),
                          ((By_CSS_SELECTOR, ''#b''), example_element ''b'' True)])
     = (Some (example_element ''b'' True),
        (example_browser [((By_CSS_SELECTOR, ''#a''), example_element ''a'' False),
                          ((By_CSS_SELECTOR, ''#b''), example_element ''b'' True)])\<lparr>tick := 2\<rparr>)
   \<and> (\<exists>i < length [''#a'', ''#b''].
         candidate (example_browser [((By_CSS_SELECTOR, ''#a''), example_element ''a'' False),
                          ((By_CSS_SELECTOR, ''#b''), example_element ''b'' True)]) [''#a'', ''#b''] i
           = Some (example_element ''b'' True)
         \<and> el_displayed (example_element ''b'' True) \<and> el_enabled (example_element ''b'' True)
         \<and> (\<forall>j < i. \<not> usable (candidate (example_browser [((By_CSS_SELECTOR, ''#a''), example_element ''a'' False),
                          ((By_CSS_SELECTOR, ''#b''), example_element ''b'' True)]) [''#a'', ''#b''] j)))"
proof -
  have h: "wait_for_element [''#a'', ''#b''] False
        (example_browser [((By_CSS_SELECTOR, ''#a''), example_element ''a'' False),
                          ((By_CSS_SELECTOR, ''#b''), example_element ''b'' True)])
     = (Some (example_element ''b'' True),
        (example_browser [((By_CSS_SELECTOR, ''#a''), example_element ''a'' False),
                          ((By_CSS_SELECTOR, ''#b''), example_element ''b'' True)])\<lparr>tick := 2\<rparr>)"
    by (simp add: example_browser_def example_element_def look_def by_of_def startswith_def
        presence_of_element_located_def)
  note t = locator_first_usable_candidate[THEN conjunct1, THEN mp, OF h, THEN conjunct2, THEN spec, THEN mp, OF refl]
  show ?thesis
    by (rule conjI[OF h t])
qed

section \<open>The validation of the filter result\<close>

lemma upt_0_3: "[0..<3] = [0, 1, 2]"
  by code_simp

lemma no_data_shown_step:
  "no_data_shown (s # rest) br =
     (if indicator_displayed br (s # rest) 0 then (True, br\<lparr>tick := tick br + 1\<rparr>)
      else no_data_shown rest (br\<lparr>tick := tick br + 1\<rparr>))"
  by (auto simp: look_def indicator_displayed_def split: option.splits)

lemma indicator_displayed_Suc:
  "indicator_displayed br (s # rest) (Suc i)
     = indicator_displayed (br\<lparr>tick := tick br + 1\<rparr>) rest i"
  by (simp add: indicator_displayed_def)

lemma no_data_shown_iff:
  "fst (no_data_shown selectors br) = (\<exists>i < length selectors. indicator_displayed br selectors i)"
proof (induction selectors arbitrary: br)
  case Nil
  show ?case by simp
next
  case (Cons s rest)
  show ?case
    by (simp add: no_data_shown_step Cons.IH ex_less_Suc indicator_displayed_Suc
        del: no_data_shown.simps)
qed

lemma no_data_shown_actions:
  "actions (snd (no_data_shown selectors br)) = actions br"
  by (induction selectors arbitrary: br) (auto simp: look_def split: option.splits)

lemma validate_attempt_actions:
  "actions (snd (validate_attempt kode br)) = actions br"
proof -
  obtain x br1 where nd: "no_data_shown no_data_message br = (x, br1)"
    by (cases "no_data_shown no_data_message br")
  have a1: "actions br1 = actions br" using no_data_shown_actions[of no_data_message br] nd by simp
  obtain c br2 where w: "wait_for_element result_dp_code_cell False br1 = (c, br2)"
    by (cases "wait_for_element result_dp_code_cell False br1")
  have a2: "actions br2 = actions br1" using wait_for_element_frame[OF w] by simp
  show ?thesis
    using nd w a1 a2
    by (auto simp: validate_attempt_def read_text_def split: option.splits bool.splits)
qed

lemma validate_loop_actions:
  "actions (snd (validate_loop kode idxs br)) = actions br"
proof (induction idxs arbitrary: br)
  case Nil
  show ?case by simp
next
  case (Cons a rest)
  obtain x br1 where v: "validate_attempt kode br = (x, br1)"
    by (cases "validate_attempt kode br")
  have "actions br1 = actions br" using validate_attempt_actions[of kode br] v by simp
  then show ?case using v Cons.IH[of br1] by (cases x) simp_all
qed

lemma click_once_script:
  "click_once e True attempt br = (r, br') \<Longrightarrow>
     clicks_on e br' = clicks_on e br + (if r = None then 1 else 0)"
  by (auto simp: click_once_def perform_def clicks_on_def split: option.splits prod.splits)

lemma click_attempts_handle:
  "click_attempts (Handle h) e True idxs br = (r, br') \<Longrightarrow>
     clicks_on e br' = clicks_on e br + (if r then 1 else 0)"
proof (induction idxs arbitrary: br)
  case Nil
  then show ?case by simp
next
  case (Cons a rest)
  obtain f br1 where co: "click_once e True a br = (f, br1)"
    by (cases "click_once e True a br")
  note c1 = click_once_script[OF co]
  show ?case
  proof (cases f)
    case None
    with Cons.prems co c1 show ?thesis by auto
  next
    case (Some flt)
    show ?thesis
    proof (cases flt)
      case StaleElementReference
      with Some Cons.prems co c1 show ?thesis by (auto simp: click_except_def)
    next
      case ElementClickIntercepted
      with Some Cons.prems co have "click_attempts (Handle h) e True rest br1 = (r, br')"
        by (simp add: click_except_def)
      from Cons.IH[OF this] c1 Some show ?thesis by simp
    next
      case OtherException
      with Some Cons.prems co have "click_attempts (Handle h) e True rest br1 = (r, br')"
        by (simp add: click_except_def)
      from Cons.IH[OF this] c1 Some show ?thesis by simp
    qed
  qed
qed

lemma safe_click_handle:
  "safe_click (Handle e) True n br = (r, br') \<Longrightarrow>
     clicks_on e br' = clicks_on e br + (if r then 1 else 0)"
  by (simp add: safe_click_def click_attempts_handle)

lemma filter_loop_bound:
  "filter_loop button kode idxs br = (x, br') \<Longrightarrow>
     clicks_on button br' \<le> clicks_on button br + length idxs"
proof (induction idxs arbitrary: br)
  case Nil
  then show ?case by simp
next
  case (Cons a rest)
  obtain r br1 where sc: "safe_click (Handle button) True 3 br = (r, br1)"
    by (cases "safe_click (Handle button) True 3 br")
  note c1 = safe_click_handle[OF sc]
  show ?case
  proof (cases r)
    case False
    with Cons.prems sc have "filter_loop button kode rest br1 = (x, br')" by simp
    from Cons.IH[OF this] c1 False show ?thesis by simp
  next
    case True
    obtain st br2 where v: "validate_filter_result kode 3 (wait_for_page_load br1) = (st, br2)"
      by (cases "validate_filter_result kode 3 (wait_for_page_load br1)")
    have a2: "clicks_on button br2 = clicks_on button br1"
      using validate_loop_actions[of kode "[0..<3]" "wait_for_page_load br1"] v
      by (simp add: validate_filter_result_def clicks_on_def wait_for_page_load_def)
    show ?thesis
    proof (cases "st = MISMATCH \<or> st = VALIDATION_FAILED")
      case True
      with \<open>r\<close> Cons.prems sc v have "filter_loop button kode rest br2 = (x, br')" by auto
      from Cons.IH[OF this] c1 a2 \<open>r\<close> show ?thesis by simp
    next
      case False
      with \<open>r\<close> Cons.prems sc v have "br' = br2" by (cases st) auto
      with c1 a2 \<open>r\<close> show ?thesis by simp
    qed
  qed
qed

text \<open>
  C1, as amended. The indicator counts as found when the lookup of one of its selectors
  finds an element that is displayed. Then \<open>validate_filter_result\<close> answers
  \<open>NO_DATA\<close> at once; otherwise, with a result row found and its cell read, it answers
  \<open>MATCH\<close> when the cell's trimmed text is the expected code and \<open>MISMATCH\<close> when
  not. In the filter loop, after a click that took effect, \<open>NO_DATA\<close> ends the
  invocation with false and no further click on the filter button, \<open>MATCH\<close> leaves the
  loop for the ticket-modal stage, and \<open>MISMATCH\<close> goes on to the remaining filter
  attempts. One invocation clicks the filter button at most three times, and returns
  false when the loop ends without a match. All this is within one invocation of
  \<open>process_ticket_creation\<close>.
\<close>

theorem validation_stage_within_one_invocation:
  "fst (no_data_shown selectors br) = (\<exists>i < length selectors. indicator_displayed br selectors i)
   \<and> (no_data_shown no_data_message br = (True, br1) \<longrightarrow>
        validate_filter_result kode 3 br = (NO_DATA, br1))
   \<and> (no_data_shown no_data_message br = (False, br1)
        \<and> wait_for_element result_dp_code_cell False br1 = (Some result_cell, br2)
        \<and> fault_at br2 (tick br2) = None \<longrightarrow>
        validate_filter_result kode 3 br
          = (if strip (el_text result_cell) = kode then MATCH else MISMATCH, br2\<lparr>tick := tick br2 + 1\<rparr>))
   \<and> (safe_click (Handle button) True 3 br = (True, br1)
        \<and> validate_filter_result kode 3 (wait_for_page_load br1) = (NO_DATA, br2) \<longrightarrow>
        filter_loop button kode (filter_attempt # rest) br = (Return_False, br2)
        \<and> clicks_on button br2 = clicks_on button br + 1)
   \<and> (safe_click (Handle button) True 3 br = (True, br1)
        \<and> validate_filter_result kode 3 (wait_for_page_load br1) = (MATCH, br2) \<longrightarrow>
        filter_loop button kode (filter_attempt # rest) br = (Validation_passed True, br2))
   \<and> (safe_click (Handle button) True 3 br = (True, br1)
        \<and> validate_filter_result kode 3 (wait_for_page_load br1) = (MISMATCH, br2) \<longrightarrow>
        filter_loop button kode (filter_attempt # rest) br = filter_loop button kode rest br2)
   \<and> (wait_for_element filter_button True br = (Some button, br1) \<longrightarrow>
        (filter_loop button kode [0..<3] br1 = (Return_False, br2) \<longrightarrow>
           filter_and_create kode br = (False, br2))
        \<and> (filter_loop button kode [0..<3] br1 = (Validation_passed False, br2) \<longrightarrow>
           filter_and_create kode br = (False, br2))
        \<and> (filter_loop button kode [0..<3] br1 = (Validation_passed True, br2) \<longrightarrow>
           filter_and_create kode br = ticket_modal br2)
        \<and> clicks_on button (snd (filter_loop button kode [0..<3] br1)) \<le> clicks_on button br1 + 3)"
proof -
  have a: "fst (no_data_shown selectors br) = (\<exists>i < length selectors. indicator_displayed br selectors i)"
    by (rule no_data_shown_iff)
  have b: "no_data_shown no_data_message br = (True, br1) \<longrightarrow>
        validate_filter_result kode 3 br = (NO_DATA, br1)"
    by (simp add: validate_filter_result_def upt_0_3 validate_attempt_def)
  have c: "no_data_shown no_data_message br = (False, br1)
        \<and> wait_for_element result_dp_code_cell False br1 = (Some result_cell, br2)
        \<and> fault_at br2 (tick br2) = None \<longrightarrow>
        validate_filter_result kode 3 br
          = (if strip (el_text result_cell) = kode then MATCH else MISMATCH, br2\<lparr>tick := tick br2 + 1\<rparr>)"
    by (simp add: validate_filter_result_def upt_0_3 validate_attempt_def read_text_def)
  have d: "safe_click (Handle button) True 3 br = (True, br1)
        \<and> validate_filter_result kode 3 (wait_for_page_load br1) = (NO_DATA, br2) \<longrightarrow>
        filter_loop button kode (filter_attempt # rest) br = (Return_False, br2)
        \<and> clicks_on button br2 = clicks_on button br + 1"
  proof (intro impI, elim conjE)
    assume sc: "safe_click (Handle button) True 3 br = (True, br1)"
      and v: "validate_filter_result kode 3 (wait_for_page_load br1) = (NO_DATA, br2)"
    have "clicks_on button br2 = clicks_on button br1"
      using validate_loop_actions[of kode "[0..<3]" "wait_for_page_load br1"] v
      by (simp add: validate_filter_result_def clicks_on_def wait_for_page_load_def)
    with safe_click_handle[OF sc] sc v
    show "filter_loop button kode (filter_attempt # rest) br = (Return_False, br2)
        \<and> clicks_on button br2 = clicks_on button br + 1" by simp
  qed
  have e: "safe_click (Handle button) True 3 br = (True, br1)
        \<and> validate_filter_result kode 3 (wait_for_page_load br1) = (MATCH, br2) \<longrightarrow>
        filter_loop button kode (filter_attempt # rest) br = (Validation_passed True, br2)"
    by simp
  have f: "safe_click (Handle button) True 3 br = (True, br1)
        \<and> validate_filter_result kode 3 (wait_for_page_load br1) = (MISMATCH, br2) \<longrightarrow>
        filter_loop button kode (filter_attempt # rest) br = filter_loop button kode rest br2"
    by simp
  have g: "wait_for_element filter_button True br = (Some button, br1) \<longrightarrow>
        (filter_loop button kode [0..<3] br1 = (Return_False, br2) \<longrightarrow>
           filter_and_create kode br = (False, br2))
        \<and> (filter_loop button kode [0..<3] br1 = (Validation_passed False, br2) \<longrightarrow>
           filter_and_create kode br = (False, br2))
        \<and> (filter_loop button kode [0..<3] br1 = (Validation_passed True, br2) \<longrightarrow>
           filter_and_create kode br = ticket_modal br2)
        \<and> clicks_on button (snd (filter_loop button kode [0..<3] br1)) \<le> clicks_on button br1 + 3"
    using filter_loop_bound[of button kode "[0..<3]" br1
        "fst (filter_loop button kode [0..<3] br1)" "snd (filter_loop button kode [0..<3] br1)"]
    by (simp add: filter_and_create_def)
  show ?thesis using a b c d e f g by blast
qed

text \<open>
  C1 as stated fails for the item: on a page that shows the indicator, validation
  answers \<open>NO_DATA\<close>, yet the controller, which is told false and nothing more, runs
  the engine \<open>MAX_RETRIES\<close> times for the code: three invocations, three clicks on the
  filter button, before the item is counted as failed.
\<close>

theorem no_data_item_is_retried:
  "fst (validate_filter_result ''DP001'' 3
          (example_browser (example_page no_data_table))) = NO_DATA
   \<and> (case process_item (browser_env 3 (\<lambda>br. (Returns True, br))) example_config example_master
           ''DP001'' (initial_bot 0, example_browser (example_page no_data_table)) of
        (st, b, br) \<Rightarrow> st = Continue \<and> failed b = 1
          \<and> attempts_of ''DP001'' (logged b) = [Returns False, Returns False, Returns False]
          \<and> clicks_on (example_element ''filter'' True) br = 3)"
  by code_simp

lemma pair_fst_snd: "fst p = a \<Longrightarrow> p = (a, snd p)"
  by (cases p) simp

theorem validation_stage_within_one_invocation_witness:
  "safe_click (Handle (example_element ''filter'' True)) True 3 no_data_browser
     = (True, snd (safe_click (Handle (example_element ''filter'' True)) True 3 no_data_browser))
   \<and> validate_filter_result ''DP001'' 3
       (wait_for_page_load (snd (safe_click (Handle (example_element ''filter'' True)) True 3 no_data_browser)))
     = (NO_DATA, snd (validate_filter_result ''DP001'' 3
       (wait_for_page_load (snd (safe_click (Handle (example_element ''filter'' True)) True 3 no_data_browser)))))
   \<and> filter_loop (example_element ''filter'' True) ''DP001'' (0 # [1, 2]) no_data_browser
     = (Return_False, snd (validate_filter_result ''DP001'' 3
       (wait_for_page_load (snd (safe_click (Handle (example_element ''filter'' True)) True 3 no_data_browser)))))
   \<and> clicks_on (example_element ''filter'' True) (snd (validate_filter_result ''DP001'' 3
       (wait_for_page_load (snd (safe_click (Handle (example_element ''filter'' True)) True 3 no_data_browser)))))
     = clicks_on (example_element ''filter'' True) no_data_browser + 1"
proof -
  have f1: "fst (safe_click (Handle (example_element ''filter'' True)) True 3 no_data_browser) = True"
    by code_simp
  have f2: "fst (validate_filter_result ''DP001'' 3
       (wait_for_page_load (snd (safe_click (Handle (example_element ''filter'' True)) True 3 no_data_browser))))
     = NO_DATA"
    by code_simp
  note h1 = pair_fst_snd[OF f1]
  note h2 = pair_fst_snd[OF f2]
  note t = validation_stage_within_one_invocation[THEN conjunct2, THEN conjunct2, THEN conjunct2,
      THEN conjunct1, THEN mp, OF conjI[OF h1 h2]]
  show ?thesis
    by (rule conjI[OF h1 conjI[OF h2 t]])
qed

section \<open>The precedence of the dropdown driver\<close>

lemma by_of_exact [simp]: "by_of (exact_match_xpath v) = By_XPATH"
  by (simp add: by_of_def exact_match_xpath_def startswith_def)

lemma by_of_contains [simp]: "by_of (contains_xpath v) = By_XPATH"
  by (simp add: by_of_def contains_xpath_def startswith_def)

lemma wait_for_element_single:
  "wait_for_element [s] clickable br =
     (if usable (dom_at br (tick br) (by_of s, s)) then dom_at br (tick br) (by_of s, s) else None,
      br\<lparr>tick := tick br + 1\<rparr>)"
  by (simp add: wait_for_element_step del: wait_for_element.simps(2))

lemma click_option_found:
  assumes "dom_at br (tick br) (By_XPATH, xp) = Some e" "el_displayed e" "el_enabled e"
    and "by_of xp = By_XPATH"
    and "fault_at br (tick br + 1) = None" "fault_at br (tick br + 2) = None"
  shows "click_option xp br
     = (True, br\<lparr>tick := tick br + 3, actions := actions br @ [Scroll e, Click e]\<rparr>)"
  using assms
  by (simp add: click_option_def wait_for_element_single usable_def safe_click_def upt_0_3
      click_once_def perform_def del: wait_for_element.simps)

lemma click_option_missing:
  assumes "\<not> usable (dom_at br (tick br) (By_XPATH, xp))" and "by_of xp = By_XPATH"
  shows "click_option xp br = (False, br\<lparr>tick := tick br + 1\<rparr>)"
  using assms by (simp add: click_option_def wait_for_element_single del: wait_for_element.simps)

lemma keyboard_confirm_ok:
  assumes "fault_at br (tick br) = None" "fault_at br (tick br + 1) = None"
  shows "keyboard_confirm input_field br
     = (True, br\<lparr>tick := tick br + 2,
                   actions := actions br @ [SendKeys input_field ARROW_DOWN, SendKeys input_field ENTER]\<rparr>)"
  using assms by (simp add: keyboard_confirm_def perform_def)

lemma xpaths_differ: "exact_match_xpath v \<noteq> contains_xpath v"
  by (simp add: exact_match_xpath_def contains_xpath_def)

lemma menu_browser_renders: "renders opts v (dom_at (menu_browser opts v found) t)"
  using xpaths_differ[of v] by (simp add: renders_def menu_browser_def rendered_page_def)

lemma malformed_apostrophes: "malformed v \<Longrightarrow> apostrophes v \<noteq> 0"
  by (cases "apostrophes v = 0") (simp_all add: malformed_def)

lemma type_chars_calm:
  "\<forall>t. fault_at br t = None \<Longrightarrow>
     type_chars input_field v br
       = (None, br\<lparr>tick := tick br + length v,
                    actions := actions br @ map (\<lambda>c. SendKeys input_field (Chars [c])) v\<rparr>)"
proof (induction v arbitrary: br)
  case Nil
  then show ?case by simp
next
  case (Cons c cs)
  let ?br1 = "br\<lparr>tick := tick br + 1, actions := actions br @ [SendKeys input_field (Chars [c])]\<rparr>"
  have p: "perform (SendKeys input_field (Chars [c])) br = (None, ?br1)"
    using Cons.prems by (simp add: perform_def)
  have "\<forall>t. fault_at ?br1 t = None" using Cons.prems by simp
  from Cons.IH[OF this] p show ?case by simp
qed

lemma clear_input_calm:
  "\<forall>t. fault_at br t = None \<Longrightarrow>
     clear_input input_field br
       = br\<lparr>tick := tick br + 3,
             actions := actions br @ [Clear input_field, SendKeys input_field CONTROL_A,
                                      SendKeys input_field DELETE]\<rparr>"
  by (simp add: clear_input_def perform_def)

lemma resolve_option_exact:
  assumes "\<forall>t. fault_at br t = None"
    and "dom_at br (tick br) (By_XPATH, exact_match_xpath v) = Some e"
    and "el_displayed e" "el_enabled e"
  shows "resolve_option input_field v br
     = (True, br\<lparr>tick := tick br + 3, actions := actions br @ [Scroll e, Click e]\<rparr>)"
proof -
  have "click_option (exact_match_xpath v) br
         = (True, br\<lparr>tick := tick br + 3, actions := actions br @ [Scroll e, Click e]\<rparr>)"
    using assms by (intro click_option_found) simp_all
  then show ?thesis by (simp add: resolve_option_def)
qed

lemma resolve_option_contains:
  assumes "\<forall>t. fault_at br t = None"
    and "\<not> usable (dom_at br (tick br) (By_XPATH, exact_match_xpath v))"
    and "dom_at br (tick br + 1) (By_XPATH, contains_xpath v) = Some e"
    and "el_displayed e" "el_enabled e"
  shows "resolve_option input_field v br
     = (True, br\<lparr>tick := tick br + 4, actions := actions br @ [Scroll e, Click e]\<rparr>)"
proof -
  let ?br1 = "br\<lparr>tick := tick br + 1\<rparr>"
  have m: "click_option (exact_match_xpath v) br = (False, ?br1)"
    using assms(2) by (intro click_option_missing) simp_all
  have "click_option (contains_xpath v) ?br1
         = (True, ?br1\<lparr>tick := tick ?br1 + 3, actions := actions ?br1 @ [Scroll e, Click e]\<rparr>)"
    using assms by (intro click_option_found) simp_all
  with m show ?thesis by (simp add: resolve_option_def)
qed

lemma resolve_option_keyboard:
  assumes "\<forall>t. fault_at br t = None"
    and "\<not> usable (dom_at br (tick br) (By_XPATH, exact_match_xpath v))"
    and "\<not> usable (dom_at br (tick br + 1) (By_XPATH, contains_xpath v))"
  shows "resolve_option input_field v br
     = (True, br\<lparr>tick := tick br + 4,
                   actions := actions br @ [SendKeys input_field ARROW_DOWN,
                                            SendKeys input_field ENTER]\<rparr>)"
proof -
  let ?br1 = "br\<lparr>tick := tick br + 1\<rparr>"
  let ?br2 = "?br1\<lparr>tick := tick ?br1 + 1\<rparr>"
  have m1: "click_option (exact_match_xpath v) br = (False, ?br1)"
    using assms(2) by (intro click_option_missing) simp_all
  have m2: "click_option (contains_xpath v) ?br1 = (False, ?br2)"
    using assms(3) by (intro click_option_missing) simp_all
  have k: "keyboard_confirm input_field ?br2
         = (True, ?br2\<lparr>tick := tick ?br2 + 2,
               actions := actions ?br2 @ [SendKeys input_field ARROW_DOWN, SendKeys input_field ENTER]\<rparr>)"
    using assms(1) by (intro keyboard_confirm_ok) simp_all
  show ?thesis using m1 m2 k by (simp add: resolve_option_def)
qed

text \<open>An attempt on a calm browser gets as far as the three strategies.\<close>

lemma dropdown_attempt_calm:
  assumes found: "wait_for_element input_selectors True br = (Some input_field, br0)"
    and calm: "\<forall>t. fault_at br t = None"
  shows "dropdown_attempt input_selectors v br
     = resolve_option input_field v
         (br0\<lparr>tick := tick br0 + length v + 5, actions := actions br @ typing input_field v\<rparr>)"
proof -
  from wait_for_element_frame[OF found]
  have fr: "fault_at br0 = fault_at br" "actions br0 = actions br" by simp_all
  have c0: "\<forall>t. fault_at br0 t = None" using calm fr by simp
  let ?br2 = "br0\<lparr>tick := tick br0 + 2, actions := actions br0 @ [Scroll input_field, Click input_field]\<rparr>"
  have c2: "\<forall>t. fault_at ?br2 t = None" using c0 by simp
  let ?br3 = "?br2\<lparr>tick := tick ?br2 + 3,
             actions := actions ?br2 @ [Clear input_field, SendKeys input_field CONTROL_A,
                                      SendKeys input_field DELETE]\<rparr>"
  have c3: "\<forall>t. fault_at ?br3 t = None" using c0 by simp
  have sc: "perform (Scroll input_field) br0
      = (None, br0\<lparr>tick := tick br0 + 1, actions := actions br0 @ [Scroll input_field]\<rparr>)"
    using c0 by (simp add: perform_def)
  have cl: "perform (Click input_field)
       (br0\<lparr>tick := tick br0 + 1, actions := actions br0 @ [Scroll input_field]\<rparr>) = (None, ?br2)"
    using c0 by (simp add: perform_def)
  have ci: "clear_input input_field ?br2 = ?br3"
    using clear_input_calm[OF c2] .
  have ty: "type_chars input_field v ?br3
      = (None, ?br3\<lparr>tick := tick ?br3 + length v,
                    actions := actions ?br3 @ map (\<lambda>c. SendKeys input_field (Chars [c])) v\<rparr>)"
    using type_chars_calm[OF c3] .
  have e: "?br3\<lparr>tick := tick ?br3 + length v,
                    actions := actions ?br3 @ map (\<lambda>c. SendKeys input_field (Chars [c])) v\<rparr>
      = br0\<lparr>tick := tick br0 + length v + 5, actions := actions br @ typing input_field v\<rparr>"
    by (simp add: typing_def fr)
  show ?thesis
    unfolding dropdown_attempt_def found
    by (simp only: prod.case option.case sc cl ci ty e)
qed

lemma handle_first_attempt:
  assumes "0 < max_retries"
    and "dropdown_attempt input_selectors v br = (True, br')"
  shows "handle_vue_select_dropdown input_selectors v max_retries br = (True, br')"
proof -
  from assms(1) have "[0..<max_retries] = 0 # [1..<max_retries]" by (simp add: upt_conv_Cons)
  with assms(2) show ?thesis by (simp add: handle_vue_select_dropdown_def)
qed




text \<open>The example of the specification, the options in its order.\<close>

lemma dropdown_driver_example:
  "fst (handle_vue_select_dropdown city_input ''ABC'' 3
      (menu_browser [example_element ''ABC'' True, example_element ''ABCD'' True] ''ABC'' [((By_CSS_SELECTOR, hd city_input), example_element ''city'' True)]))
   \<and> drop 8 (actions (snd (handle_vue_select_dropdown city_input ''ABC'' 3
      (menu_browser [example_element ''ABC'' True, example_element ''ABCD'' True] ''ABC'' [((By_CSS_SELECTOR, hd city_input), example_element ''city'' True)]))))
      = [Scroll (example_element ''ABC'' True), Click (example_element ''ABC'' True)]"
  by code_simp

end
